theory Spec2Isabelle
  imports Complex_Main "HOL-Library.AList"
begin

section \<open>The scene controller (src/render/sceneController.ts)\<close>

subsection \<open>Data model\<close>

text \<open>
  The three materials that \<open>createScene\<close> builds for entity meshes are three distinct
  objects (all three are constructed under the name "entityMaterial", so only their
  identity tells them apart); the grid has a material of its own. A material is
  modelled by its identity.
\<close>

datatype material = GroundMaterial | EntityMaterial | SelectedMaterial | HoveredMaterial

text \<open>A position is only ever copied by the controller, never computed with.\<close>

datatype vector3 = Vector3 real real real

text \<open>
  The part of a \<open>BABYLON.Mesh\<close> that the controller reads or writes. \<open>mesh_id\<close>
  is the field \<open>id\<close> of the mesh, \<open>enabled\<close> is what \<open>setEnabled\<close> sets.
\<close>

record mesh =
  mesh_name :: string
  mesh_id :: string
  material :: material
  isPickable :: bool
  position :: vector3
  enabled :: bool

text \<open>
  Modelled from the spec: \<open>RECORDING.IEntity\<close> and
  \<open>RECORDING.NaiveRecordedData.getEntityPosition\<close> live in
  \<open>recording/RecordingData\<close>, which is not part of the sources at hand. The spec
  describes an entity as "identified by an integer id; has a 3D position (x, y, z)", and
  \<open>setEntity\<close> as setting the mesh's "position from the entity's derived position".
\<close>

record IEntity =
  entity_id :: int
  recorded_position :: vector3

definition getEntityPosition :: "IEntity \<Rightarrow> vector3" where
  "getEntityPosition entity = recorded_position entity"

text \<open>
  Meshes are objects that several fields refer to at once: the entity map, the selected
  back-reference and the hovered back-reference. The scene is therefore a store of
  meshes, a reference is an index into it, and a new mesh is appended. The entity map is
  a JavaScript \<open>Map\<close>: an association list in insertion order, where \<open>set\<close> on a
  key that is present replaces its value in place (\<open>AList.update\<close>). An unset
  (\<open>undefined\<close>) or \<open>null\<close> back-reference is \<open>None\<close>.
\<close>

record SceneController =
  scene_meshes :: "mesh list"
  entities :: "(int \<times> nat) list"
  selectedEntity :: "nat option"
  hoveredEntity :: "nat option"

text \<open>
  Writing a field of the mesh behind a reference. A JavaScript reference always points
  to a live object; an index beyond the store does not arise in a state the controller
  can reach (lemma \<open>well_formed_run\<close> below), and there the write changes nothing.
\<close>

definition update_mesh :: "nat \<Rightarrow> (mesh \<Rightarrow> mesh) \<Rightarrow> SceneController \<Rightarrow> SceneController" where
  "update_mesh a f c = c\<lparr>scene_meshes := (scene_meshes c)[a := f (scene_meshes c ! a)]\<rparr>"

definition mesh_at :: "SceneController \<Rightarrow> nat \<Rightarrow> mesh" where
  "mesh_at c a = scene_meshes c ! a"

subsection \<open>String form of an entity id\<close>

text \<open>
  An entity id is a JavaScript \<open>number\<close> with an integer value. It is modelled by
  that integer; \<open>is_Number\<close> below says which integers are values of the type (the
  integers that a double holds exactly). Rounding an integer to the nearest double, ties
  to even, keeps its 53 leading bits.
\<close>

fun num_bits :: "nat \<Rightarrow> nat" where
  "num_bits n = (if n = 0 then 0 else Suc (num_bits (n div 2)))"

declare num_bits.simps [simp del]

definition round_to_double :: "nat \<Rightarrow> nat" where
  "round_to_double m =
     (if m < 2 ^ 53 then m
      else
        (let e = num_bits m - 53;
             q = m div 2 ^ e;
             r = m mod 2 ^ e;
             q' = (if 2 ^ e < 2 * r \<or> (2 * r = 2 ^ e \<and> odd q) then q + 1 else q)
         in q' * 2 ^ e))"

text \<open>
  \<open>"" + entity.id\<close> is \<open>Number::toString\<close>: the shortest decimal digit string \<open>s\<close>
  and the exponent \<open>p\<close> for which \<open>s * 10 ^ p\<close> rounds to the number (of two
  candidates with the same number of digits the closer one, the even one on a tie),
  written as digits followed by zeros below \<open>10 ^ 21\<close> and in exponent notation from
  there on, with a leading minus sign for a negative number.
\<close>

definition digit_char :: "nat \<Rightarrow> char" where
  "digit_char d = ''0123456789'' ! d"

fun nat_to_digits :: "nat \<Rightarrow> string" where
  "nat_to_digits n = (if n < 10 then [digit_char n] else nat_to_digits (n div 10) @ [digit_char (n mod 10)])"

declare nat_to_digits.simps [simp del]

text \<open>
  The candidates with \<open>k\<close> digits for the number \<open>m\<close>: the first \<open>k\<close> digits of
  \<open>m\<close> and their successor, each followed by zeros. A candidate counts when it rounds
  to \<open>m\<close>.
\<close>

definition digit_candidate :: "nat \<Rightarrow> nat \<Rightarrow> (nat \<times> nat) option" where
  "digit_candidate k m =
     (let p = length (nat_to_digits m) - k;
          lo = m div 10 ^ p;
          hi = lo + 1;
          ok_lo = (round_to_double (lo * 10 ^ p) = m);
          ok_hi = (round_to_double (hi * 10 ^ p) = m)
      in if ok_lo \<and> ok_hi
         then (if m - lo * 10 ^ p < hi * 10 ^ p - m \<or> (m - lo * 10 ^ p = hi * 10 ^ p - m \<and> even lo)
               then Some (lo, p) else Some (hi, p))
         else if ok_lo then Some (lo, p)
         else if ok_hi then Some (hi, p)
         else None)"

text \<open>
  The search for the shortest digit string, from \<open>k\<close> digits upwards; all the digits
  of \<open>m\<close> are the last resort.
\<close>

function shortest_from :: "nat \<Rightarrow> nat \<Rightarrow> nat \<times> nat" where
  "shortest_from k m =
     (if length (nat_to_digits m) \<le> k then (m, 0)
      else case digit_candidate k m of
             Some sp \<Rightarrow> sp
           | None \<Rightarrow> shortest_from (Suc k) m)"
  by pat_completeness auto
termination
  by (relation "measure (\<lambda>(k, m). length (nat_to_digits m) - k)") auto

declare shortest_from.simps [simp del]

definition strip_zeros :: "string \<Rightarrow> string" where
  "strip_zeros ds = rev (dropWhile (\<lambda>ch. ch = CHR ''0'') (rev ds))"

definition magnitude_to_string :: "nat \<Rightarrow> string" where
  "magnitude_to_string m =
     (let (s, p) = shortest_from (Suc 0) m
      in if m < 10 ^ 21 then nat_to_digits s @ replicate p CHR ''0''
         else
           (let ds = strip_zeros (nat_to_digits s);
                e = length (nat_to_digits s) + p - 1
            in (if length ds = 1 then ds else hd ds # CHR ''.'' # tl ds) @ ''e+'' @ nat_to_digits e))"

definition number_to_string :: "int \<Rightarrow> string" where
  "number_to_string n = (if n < 0 then CHR ''-'' # magnitude_to_string (nat (- n)) else magnitude_to_string (nat n))"

text \<open>
  \<open>parseInt\<close> with one argument: it skips leading white space, reads a sign,
  takes base 16 after a prefix \<open>0x\<close>
  and base 10 otherwise, reads the longest prefix of digits of that base and ignores the
  rest; the result is \<open>NaN\<close> when there is no digit, and the digits' value rounded
  to a double otherwise, infinite when that is beyond the doubles.
\<close>

text \<open>A result of \<open>parseInt\<close>; the flag of \<open>Infinity\<close> says that it is negative.\<close>

datatype number = Finite int | NaN | Infinity bool

fun index_of :: "'a \<Rightarrow> 'a list \<Rightarrow> nat option" where
  "index_of x [] = None"
| "index_of x (y # ys) = (if x = y then Some 0 else map_option Suc (index_of x ys))"

definition char_value :: "char \<Rightarrow> nat option" where
  "char_value ch =
     (case index_of ch ''0123456789abcdef'' of
        Some v \<Rightarrow> Some v
      | None \<Rightarrow> map_option (\<lambda>v. v + 10) (index_of ch ''ABCDEF''))"

definition is_radix_digit :: "nat \<Rightarrow> char \<Rightarrow> bool" where
  "is_radix_digit R ch = (case char_value ch of Some v \<Rightarrow> v < R | None \<Rightarrow> False)"

definition radix_value :: "nat \<Rightarrow> string \<Rightarrow> nat" where
  "radix_value R ds = foldl (\<lambda>acc ch. R * acc + (case char_value ch of Some v \<Rightarrow> v | None \<Rightarrow> 0)) 0 ds"

text \<open>
  A JavaScript string is a sequence of UTF-16 code units; the type \<open>string\<close> holds
  those whose code units are below 256, which covers every stamp. The white space and
  line terminator characters of the language in that range are tab, line feed, vertical
  tab, form feed, carriage return, space and no-break space (U+00A0).
\<close>

definition is_space :: "char \<Rightarrow> bool" where
  "is_space ch = (ch \<in> set [CHR '' '', CHR 0x09, CHR 0x0A, CHR 0x0B, CHR 0x0C, CHR 0x0D, CHR 0xA0])"

definition infinity_threshold :: nat where
  "infinity_threshold = 2 ^ 1024"

definition read_sign :: "string \<Rightarrow> bool \<times> string" where
  "read_sign str =
     (case str of
        ch # cs \<Rightarrow> if ch = CHR ''-'' then (True, cs) else if ch = CHR ''+'' then (False, cs) else (False, str)
      | [] \<Rightarrow> (False, str))"

definition read_radix :: "string \<Rightarrow> nat \<times> string" where
  "read_radix str = (if take 2 str = ''0x'' \<or> take 2 str = ''0X'' then (16, drop 2 str) else (10, str))"

definition parseInt :: "string \<Rightarrow> number" where
  "parseInt str =
     (let (negative, s2) = read_sign (dropWhile is_space str);
          (R, s3) = read_radix s2;
          ds = takeWhile (is_radix_digit R) s3
      in if ds = [] then NaN
         else
           (let v = round_to_double (radix_value R ds)
            in if infinity_threshold \<le> v then Infinity negative
               else Finite (if negative then - int v else int v)))"

text \<open>The integers that are values of the type \<open>number\<close>.\<close>

definition is_Number :: "int \<Rightarrow> bool" where
  "is_Number n \<longleftrightarrow> round_to_double (nat \<bar>n\<bar>) = nat \<bar>n\<bar> \<and> nat \<bar>n\<bar> < infinity_threshold"

subsection \<open>Operations\<close>

text \<open>
  The state after \<open>initialize\<close>: the scene holds the grid plane (not pickable, with
  its grid material), the entity map is empty and both back-references are unset.
\<close>

definition grid_mesh :: mesh where
  "grid_mesh = \<lparr>mesh_name = ''plane'', mesh_id = ''plane'', material = GroundMaterial,
     isPickable = False, position = Vector3 0 0 0, enabled = True\<rparr>"

definition initialize :: SceneController where
  "initialize = \<lparr>scene_meshes = [grid_mesh], entities = [], selectedEntity = None, hoveredEntity = None\<rparr>"

text \<open>
  \<open>createEntity\<close>: a new sphere (enabled and at the origin, as the engine creates it)
  with the default material, pickable, stamped with the id, stored in the map under the
  id. Returns the state and the reference to the new mesh.
\<close>

definition createEntity :: "IEntity \<Rightarrow> SceneController \<Rightarrow> SceneController \<times> nat" where
  "createEntity entity c =
     (let sphere = \<lparr>mesh_name = ''sphere'', mesh_id = number_to_string (entity_id entity),
                     material = EntityMaterial, isPickable = True,
                     position = Vector3 0 0 0, enabled = True\<rparr>;
          a = length (scene_meshes c)
      in (c\<lparr>scene_meshes := scene_meshes c @ [sphere],
            entities := AList.update (entity_id entity) a (entities c)\<rparr>, a))"

definition setEntity :: "IEntity \<Rightarrow> SceneController \<Rightarrow> SceneController" where
  "setEntity entity c =
     (let (c1, storedMesh) =
            (case map_of (entities c) (entity_id entity) of
               None \<Rightarrow> createEntity entity c
             | Some a \<Rightarrow> (c, a));
          postion = getEntityPosition entity
      in update_mesh storedMesh (\<lambda>m. m\<lparr>enabled := True\<rparr>)
           (update_mesh storedMesh (\<lambda>m. m\<lparr>position := postion\<rparr>) c1))"

definition hideAllEntities :: "SceneController \<Rightarrow> SceneController" where
  "hideAllEntities c = fold (\<lambda>a. update_mesh a (\<lambda>m. m\<lparr>enabled := False\<rparr>)) (map snd (entities c)) c"

definition markEntityAsSelected :: "int \<Rightarrow> SceneController \<Rightarrow> SceneController" where
  "markEntityAsSelected ident c =
     (case map_of (entities c) ident of
        None \<Rightarrow> c
      | Some storedMesh \<Rightarrow>
          (let c1 = (case selectedEntity c of
                       None \<Rightarrow> c
                     | Some prev \<Rightarrow> update_mesh prev (\<lambda>m. m\<lparr>material := EntityMaterial\<rparr>) c);
               c2 = update_mesh storedMesh (\<lambda>m. m\<lparr>material := SelectedMaterial\<rparr>) c1
           in c2\<lparr>selectedEntity := Some storedMesh\<rparr>))"

text \<open>The block "Restore previous entity material" that both hover operations share.\<close>

definition restore_hovered :: "SceneController \<Rightarrow> SceneController" where
  "restore_hovered c =
     (case hoveredEntity c of
        None \<Rightarrow> c
      | Some prev \<Rightarrow>
          if hoveredEntity c = selectedEntity c
          then update_mesh prev (\<lambda>m. m\<lparr>material := SelectedMaterial\<rparr>) c
          else update_mesh prev (\<lambda>m. m\<lparr>material := EntityMaterial\<rparr>) c)"

definition onEntityHovered :: "int \<Rightarrow> SceneController \<Rightarrow> SceneController" where
  "onEntityHovered ident c =
     (case map_of (entities c) ident of
        None \<Rightarrow> c
      | Some storedMesh \<Rightarrow>
          (let c1 = restore_hovered c;
               c2 = update_mesh storedMesh (\<lambda>m. m\<lparr>material := HoveredMaterial\<rparr>) c1
           in c2\<lparr>hoveredEntity := Some storedMesh\<rparr>))"

definition onEntityStopHovered :: "SceneController \<Rightarrow> SceneController" where
  "onEntityStopHovered c = (restore_hovered c)\<lparr>hoveredEntity := None\<rparr>"


text \<open>
  Pointer events. The engine offers a mesh to the handlers only when the pick predicate
  accepts it; both predicates of \<open>createScene\<close> are \<open>mesh.isPickable\<close>. A pick
  is a miss or a hit of one mesh of the scene.
\<close>

datatype picking_info = Miss | Hit nat

definition pointerPredicate :: "mesh \<Rightarrow> bool" where
  "pointerPredicate m = isPickable m"

definition possible_pick :: "SceneController \<Rightarrow> picking_info \<Rightarrow> bool" where
  "possible_pick c pickInfo =
     (case pickInfo of
        Miss \<Rightarrow> True
      | Hit pickedMesh \<Rightarrow> pickedMesh < length (scene_meshes c) \<and> pointerPredicate (mesh_at c pickedMesh))"

text \<open>
  \<open>scene.onPointerDown\<close> calls the external callback \<open>onEntitySelected\<close>, which is
  not part of the controller and is taken to be assigned. The handler is modelled by
  the state it leaves and the list of arguments it calls the callback with; what the
  callback then does (for instance a call of \<open>markEntityAsSelected\<close>) is a call of
  its own.
\<close>

definition onPointerDown :: "SceneController \<Rightarrow> picking_info \<Rightarrow> SceneController \<times> number list" where
  "onPointerDown c pickResult =
     (case pickResult of
        Hit pickedMesh \<Rightarrow> (c, [parseInt (mesh_id (mesh_at c pickedMesh))])
      | Miss \<Rightarrow> (c, []))"

text \<open>
  \<open>scene.onPointerMove\<close>; the cursor style of the canvas is not modelled. No key of
  the entity map is \<open>NaN\<close> or infinite, so \<open>onEntityHovered\<close> finds no mesh for
  such an argument.
\<close>

definition onPointerMove :: "SceneController \<Rightarrow> picking_info \<Rightarrow> SceneController" where
  "onPointerMove c pickInfo =
     (case pickInfo of
        Hit pickedMesh \<Rightarrow>
          (case parseInt (mesh_id (mesh_at c pickedMesh)) of
             Finite ident \<Rightarrow> onEntityHovered ident c
           | _ \<Rightarrow> c)
      | Miss \<Rightarrow> onEntityStopHovered c)"

subsection \<open>Reachable states\<close>

text \<open>
  A state of the controller is reachable when a sequence of calls of its public
  operations and of pointer events leads to it from \<open>initialize\<close>. A pointer event
  with a pick that the engine cannot produce does not happen.
\<close>

datatype call =
    CreateEntity IEntity
  | SetEntity IEntity
  | HideAllEntities
  | MarkEntityAsSelected int
  | OnEntityHovered int
  | OnEntityStopHovered
  | PointerDown picking_info
  | PointerMove picking_info

fun exec :: "call \<Rightarrow> SceneController \<Rightarrow> SceneController" where
  "exec (CreateEntity entity) c = fst (createEntity entity c)"
| "exec (SetEntity entity) c = setEntity entity c"
| "exec HideAllEntities c = hideAllEntities c"
| "exec (MarkEntityAsSelected ident) c = markEntityAsSelected ident c"
| "exec (OnEntityHovered ident) c = onEntityHovered ident c"
| "exec OnEntityStopHovered c = onEntityStopHovered c"
| "exec (PointerDown pickResult) c = (if possible_pick c pickResult then fst (onPointerDown c pickResult) else c)"
| "exec (PointerMove pickInfo) c = (if possible_pick c pickInfo then onPointerMove c pickInfo else c)"

definition run :: "call list \<Rightarrow> SceneController \<Rightarrow> SceneController" where
  "run calls c = fold exec calls c"

subsection \<open>Invariants of the reachable states\<close>

text \<open>
  In every reachable state the entity map has one entry per id, no two ids share a
  mesh, every reference (map entry, selected, hovered) points to a sphere of the scene,
  and the mesh stored under an id carries that id as its stamp.
\<close>

definition sphere_ref :: "SceneController \<Rightarrow> nat \<Rightarrow> bool" where
  "sphere_ref c a \<longleftrightarrow> a < length (scene_meshes c) \<and> isPickable (mesh_at c a)"

definition well_formed :: "SceneController \<Rightarrow> bool" where
  "well_formed c \<longleftrightarrow>
     distinct (map fst (entities c)) \<and>
     distinct (map snd (entities c)) \<and>
     (\<forall>(k, a) \<in> set (entities c). sphere_ref c a \<and> mesh_id (mesh_at c a) = number_to_string k) \<and>
     (\<forall>a. selectedEntity c = Some a \<longrightarrow> sphere_ref c a) \<and>
     (\<forall>a. hoveredEntity c = Some a \<longrightarrow> sphere_ref c a)"

text \<open>
  The material of a sphere follows the back-references: a sphere that is neither the
  selected nor the hovered mesh shows the default material, the selected mesh shows the
  selected material unless it is also the hovered mesh, and only the hovered mesh can
  show the hover material.
\<close>

definition materials_ok :: "SceneController \<Rightarrow> bool" where
  "materials_ok c \<longleftrightarrow>
     (\<forall>a. sphere_ref c a \<longrightarrow>
        material (mesh_at c a) \<noteq> GroundMaterial \<and>
        (selectedEntity c \<noteq> Some a \<and> hoveredEntity c \<noteq> Some a \<longrightarrow> material (mesh_at c a) = EntityMaterial) \<and>
        (selectedEntity c = Some a \<and> hoveredEntity c \<noteq> Some a \<longrightarrow> material (mesh_at c a) = SelectedMaterial) \<and>
        (material (mesh_at c a) = HoveredMaterial \<longrightarrow> hoveredEntity c = Some a))"

text \<open>
  The selected material marks the selected mesh: a sphere that shows it is the selected
  mesh, and the selected mesh never shows the default material.
\<close>

definition selection_marked :: "SceneController \<Rightarrow> bool" where
  "selection_marked c \<longleftrightarrow>
     (\<forall>a. sphere_ref c a \<longrightarrow>
        (material (mesh_at c a) = SelectedMaterial \<longrightarrow> selectedEntity c = Some a) \<and>
        (selectedEntity c = Some a \<longrightarrow> material (mesh_at c a) \<noteq> EntityMaterial))"

text \<open>The hovered mesh does not show the default material.\<close>

definition hover_marked :: "SceneController \<Rightarrow> bool" where
  "hover_marked c \<longleftrightarrow>
     (\<forall>a. sphere_ref c a \<and> hoveredEntity c = Some a \<longrightarrow> material (mesh_at c a) \<noteq> EntityMaterial)"

text \<open>
  \<open>markEntityAsSelected(ident)\<close> in a state where the selected mesh is also the hovered
  mesh and the mesh of \<open>ident\<close> is another one: the call that resets a mesh to the
  default material while it stays hovered.
\<close>

definition moves_selection_off_hovered :: "int \<Rightarrow> SceneController \<Rightarrow> bool" where
  "moves_selection_off_hovered ident c =
     (case map_of (entities c) ident of
        None \<Rightarrow> False
      | Some storedMesh \<Rightarrow>
          (case selectedEntity c of
             None \<Rightarrow> False
           | Some prev \<Rightarrow> hoveredEntity c = Some prev \<and> prev \<noteq> storedMesh))"

text \<open>A sequence of calls without such a call of \<open>markEntityAsSelected\<close>.\<close>

fun selection_leaves_unhovered :: "call list \<Rightarrow> SceneController \<Rightarrow> bool" where
  "selection_leaves_unhovered [] c = True"
| "selection_leaves_unhovered (call # calls) c =
     ((case call of
         MarkEntityAsSelected ident \<Rightarrow> \<not> moves_selection_off_hovered ident c
       | _ \<Rightarrow> True) \<and>
      selection_leaves_unhovered calls (exec call c))"

text \<open>A mesh that is not a sphere (the grid) keeps its own material.\<close>

definition grid_kept :: "SceneController \<Rightarrow> bool" where
  "grid_kept c \<longleftrightarrow>
     (\<forall>a. a < length (scene_meshes c) \<and> \<not> isPickable (mesh_at c a) \<longrightarrow>
          material (mesh_at c a) = GroundMaterial)"

text \<open>
  The ids in \<open>S\<close> are exactly the ids of the entity map whose mesh is enabled.
\<close>

definition shown_exactly :: "SceneController \<Rightarrow> int set \<Rightarrow> bool" where
  "shown_exactly c S \<longleftrightarrow>
     (\<forall>k a. map_of (entities c) k = Some a \<longrightarrow> (enabled (mesh_at c a) \<longleftrightarrow> k \<in> S))"

text \<open>
  A sequence of calls in which \<open>createEntity\<close> is only called with an id that has no
  mesh in the entity map at that moment, which is how \<open>setEntity\<close> calls it.
\<close>

fun creates_fresh :: "call list \<Rightarrow> SceneController \<Rightarrow> bool" where
  "creates_fresh [] c = True"
| "creates_fresh (call # calls) c =
     ((case call of
         CreateEntity e \<Rightarrow> map_of (entities c) (entity_id e) = None
       | _ \<Rightarrow> True) \<and>
      creates_fresh calls (exec call c))"

text \<open>Every sphere of the scene is the mesh of some id of the entity map.\<close>

definition all_tracked :: "SceneController \<Rightarrow> bool" where
  "all_tracked c \<longleftrightarrow> (\<forall>a. sphere_ref c a \<longrightarrow> a \<in> snd ` set (entities c))"

text \<open>The ids that a sequence of calls passes to \<open>createEntity\<close> or \<open>setEntity\<close>.\<close>

fun ids_passed :: "call list \<Rightarrow> int list" where
  "ids_passed [] = []"
| "ids_passed (CreateEntity e # calls) = entity_id e # ids_passed calls"
| "ids_passed (SetEntity e # calls) = entity_id e # ids_passed calls"
| "ids_passed (_ # calls) = ids_passed calls"

text \<open>An entity record with the given id, placed on the x axis; used in the examples.\<close>

definition entity_at :: "int \<Rightarrow> real \<Rightarrow> IEntity" where
  "entity_at n px = \<lparr>entity_id = n, recorded_position = Vector3 px 0 0\<rparr>"

section \<open>The Clear message of the host (src/main.ts)\<close>

text \<open>
  Modelled from the spec: \<open>messaging/MessageDefinitions\<close> is not part of the sources
  at hand. The spec gives a message as "a tagged envelope (type, data)" with the
  enumerants Open, Save, Load, Clear, OpenResult, ClearResult, RequestSave and
  UpdateRecentFiles, and the payload of ClearResult as \<open>{clear, remember}\<close>.
\<close>

datatype MessageType =
  Open | Save | Load | Clear | OpenResult | ClearResult | RequestSave | UpdateRecentFiles

datatype payload = NoData | Text string | ClearData (clear: bool) (remember: bool)

datatype Message = Message (msg_type: MessageType) (msg_data: payload)

record SessionOptions =
  showClearDataDialog :: bool

definition new_SessionOptions :: SessionOptions where
  "new_SessionOptions = \<lparr>showClearDataDialog = True\<rparr>"

text \<open>
  What the handler does to the outside: it opens the message box, and it replies on
  the channel \<open>asynchronous-reply\<close>.
\<close>

datatype host_effect = ShowMessageBox | Reply Message

text \<open>
  The case \<open>Messaging.MessageType.Clear\<close> of the handler of
  \<open>asynchronous-message\<close>, together with the callback it hands to
  \<open>dialog.showMessageBox\<close>. The answer of the user (the index of the button and the
  state of the checkbox) is an input; it is read only when the dialog is shown.
\<close>

definition on_clear_message :: "SessionOptions \<Rightarrow> nat \<times> bool \<Rightarrow> SessionOptions \<times> host_effect list" where
  "on_clear_message sessionOptions answer =
     (if \<not> showClearDataDialog sessionOptions
      then (sessionOptions, [Reply (Message ClearResult (ClearData True True))])
      else
        (let (response, checkboxChecked) = answer;
             shouldClear = (response = 0);
             sessionOptions' =
               (if shouldClear \<and> checkboxChecked
                then sessionOptions\<lparr>showClearDataDialog := False\<rparr>
                else sessionOptions)
         in (sessionOptions',
             [ShowMessageBox, Reply (Message ClearResult (ClearData shouldClear checkboxChecked))])))"

definition replies :: "host_effect list \<Rightarrow> Message list" where
  "replies effects = concat (map (\<lambda>e. case e of Reply m \<Rightarrow> [m] | ShowMessageBox \<Rightarrow> []) effects)"

section \<open>Stamps parse back\<close>

lemma index_of_Some: "index_of x xs = Some i \<Longrightarrow> i < length xs \<and> xs ! i = x"
  by (induction xs arbitrary: i) (auto split: if_splits)

lemma decimal_digit_cases:
  assumes "is_radix_digit 10 ch"
  shows "ch \<in> set ''0123456789''"
proof -
  from assms obtain v where v: "char_value ch = Some v" "v < 10"
    by (auto simp: is_radix_digit_def split: option.splits)
  have "index_of ch ''0123456789abcdef'' = Some v"
  proof (cases "index_of ch ''0123456789abcdef''")
    case None
    with v show ?thesis by (auto simp: char_value_def)
  next
    case (Some w)
    with v show ?thesis by (simp add: char_value_def)
  qed
  then have "''0123456789abcdef'' ! v = ch"
    using index_of_Some by fastforce
  moreover from v(2) have "v \<in> {0, 1, 2, 3, 4, 5, 6, 7, 8, 9}" by auto
  ultimately show ?thesis
    by (elim insertE emptyE) auto
qed

lemma char_value_digit_char: "d < 10 \<Longrightarrow> char_value (digit_char d) = Some d"
proof -
  assume "d < 10"
  then have "d \<in> {0, 1, 2, 3, 4, 5, 6, 7, 8, 9}" by auto
  then show ?thesis
    by (elim insertE emptyE) (simp_all add: digit_char_def char_value_def)
qed

lemma is_radix_digit_digit_char: "d < 10 \<Longrightarrow> is_radix_digit 10 (digit_char d)"
  by (simp add: is_radix_digit_def char_value_digit_char)

lemma nat_to_digits_digits: "ch \<in> set (nat_to_digits n) \<Longrightarrow> is_radix_digit 10 ch"
proof (induction n rule: nat_to_digits.induct)
  case (1 n)
  show ?case
  proof (cases "n < 10")
    case True
    with "1.prems" show ?thesis
      by (simp add: nat_to_digits.simps [of n] is_radix_digit_digit_char)
  next
    case False
    with "1.prems" have "ch \<in> set (nat_to_digits (n div 10)) \<or> ch = digit_char (n mod 10)"
      by (auto simp: nat_to_digits.simps [of n])
    then show ?thesis
      using "1.IH" False by (auto simp: is_radix_digit_digit_char)
  qed
qed

lemma nat_to_digits_nonempty: "nat_to_digits n \<noteq> []"
  by (simp add: nat_to_digits.simps [of n])

lemma radix_value_snoc:
  "radix_value R (ds @ [ch]) = R * radix_value R ds + (case char_value ch of Some v \<Rightarrow> v | None \<Rightarrow> 0)"
  by (simp add: radix_value_def)

lemma radix_value_nat_to_digits: "radix_value 10 (nat_to_digits n) = n"
proof (induction n rule: nat_to_digits.induct)
  case (1 n)
  show ?case
  proof (cases "n < 10")
    case True
    then show ?thesis
      by (simp add: nat_to_digits.simps [of n] radix_value_def char_value_digit_char)
  next
    case False
    then have "radix_value 10 (nat_to_digits n) = 10 * radix_value 10 (nat_to_digits (n div 10)) + n mod 10"
      by (simp add: nat_to_digits.simps [of n] radix_value_snoc char_value_digit_char)
    with "1.IH" False show ?thesis by simp
  qed
qed

lemma char_value_zero: "char_value CHR ''0'' = Some 0"
  by (simp add: char_value_def)

lemma radix_value_zeros: "radix_value 10 (ds @ replicate p CHR ''0'') = radix_value 10 ds * 10 ^ p"
proof (induction p)
  case 0
  show ?case by simp
next
  case (Suc p)
  have "ds @ replicate (Suc p) CHR ''0'' = (ds @ replicate p CHR ''0'') @ [CHR ''0'']"
    by (simp add: replicate_append_same)
  then have "radix_value 10 (ds @ replicate (Suc p) CHR ''0'') = 10 * radix_value 10 (ds @ replicate p CHR ''0'')"
    by (simp only: radix_value_snoc char_value_zero) simp
  with Suc.IH show ?case by simp
qed

lemma digit_candidate_rounds:
  "digit_candidate k m = Some (s, p) \<Longrightarrow> round_to_double (s * 10 ^ p) = m"
  unfolding digit_candidate_def Let_def
  by (auto split: if_splits)

lemma shortest_from_rounds:
  "shortest_from k m = (s, p) \<Longrightarrow> round_to_double m = m \<Longrightarrow> round_to_double (s * 10 ^ p) = m"
proof (induction k m rule: shortest_from.induct)
  case (1 k m)
  show ?case
  proof (cases "length (nat_to_digits m) \<le> k")
    case True
    with "1.prems" show ?thesis by (simp add: shortest_from.simps [of k m])
  next
    case False
    show ?thesis
    proof (cases "digit_candidate k m")
      case None
      with False "1.prems" have "shortest_from (Suc k) m = (s, p)"
        by (simp add: shortest_from.simps [of k m])
      with "1.IH" False None "1.prems"(2) show ?thesis by simp
    next
      case (Some sp)
      with False "1.prems" have "digit_candidate k m = Some (s, p)"
        by (simp add: shortest_from.simps [of k m])
      then show ?thesis by (rule digit_candidate_rounds)
    qed
  qed
qed

text \<open>Parsing a string of decimal digits.\<close>

lemma parseInt_digits:
  assumes digits: "\<And>ch. ch \<in> set ds \<Longrightarrow> is_radix_digit 10 ch" and ne: "ds \<noteq> []"
    and small: "round_to_double (radix_value 10 ds) < infinity_threshold"
  shows "parseInt ds = Finite (int (round_to_double (radix_value 10 ds)))"
    and "parseInt (CHR ''-'' # ds) = Finite (- int (round_to_double (radix_value 10 ds)))"
proof -
  have mem: "set ds \<subseteq> set ''0123456789''"
    using digits decimal_digit_cases by blast
  obtain d rest where ds: "ds = d # rest"
    using ne by (cases ds) auto
  have d: "d \<in> set ''0123456789''" using mem ds by simp
  have nospace: "\<not> is_space d"
    using d by (auto simp: is_space_def)
  have nosign: "d \<noteq> CHR ''-''" "d \<noteq> CHR ''+''"
    using d by auto
  have "CHR ''x'' \<notin> set ds" "CHR ''X'' \<notin> set ds"
    using mem by auto
  then have "CHR ''x'' \<notin> set (take 2 ds)" "CHR ''X'' \<notin> set (take 2 ds)"
    by (meson in_set_takeD)+
  then have nohex: "take 2 ds \<noteq> ''0x''" "take 2 ds \<noteq> ''0X''"
    by auto
  have radix: "read_radix ds = (10, ds)"
    unfolding read_radix_def using nohex by (simp only: simp_thms if_False)
  have tw: "takeWhile (is_radix_digit 10) ds = ds"
    using digits by (simp add: takeWhile_eq_all_conv)
  have dw: "dropWhile is_space ds = ds"
    using nospace ds by simp
  have sign: "read_sign ds = (False, ds)"
    using nosign by (simp add: read_sign_def ds)
  have nle: "\<not> infinity_threshold \<le> round_to_double (radix_value 10 ds)"
    using small by simp
  show "parseInt ds = Finite (int (round_to_double (radix_value 10 ds)))"
    by (simp only: parseInt_def dw sign radix tw Let_def prod.case ne nle if_False)
  have dw': "dropWhile is_space (CHR ''-'' # ds) = CHR ''-'' # ds"
    by (simp add: is_space_def)
  have sign': "read_sign (CHR ''-'' # ds) = (True, ds)"
    by (simp add: read_sign_def)
  show "parseInt (CHR ''-'' # ds) = Finite (- int (round_to_double (radix_value 10 ds)))"
    by (simp only: parseInt_def dw' sign' radix tw Let_def prod.case ne nle if_False if_True)
qed

lemma below_threshold: "m < 10 ^ 21 \<Longrightarrow> m < infinity_threshold"
proof -
  assume "m < 10 ^ 21"
  moreover have "(10::nat) ^ 21 < 2 ^ 1024" by simp
  ultimately show ?thesis unfolding infinity_threshold_def by (rule less_trans)
qed

lemma parseInt_magnitude:
  assumes "round_to_double m = m" "m < 10 ^ 21"
  shows "parseInt (magnitude_to_string m) = Finite (int m)"
    and "parseInt (CHR ''-'' # magnitude_to_string m) = Finite (- int m)"
proof -
  obtain s p where sp: "shortest_from (Suc 0) m = (s, p)"
    by (cases "shortest_from (Suc 0) m")
  let ?ds = "nat_to_digits s @ replicate p CHR ''0''"
  have str: "magnitude_to_string m = ?ds"
    using assms(2) by (simp add: magnitude_to_string_def sp)
  have val: "radix_value 10 ?ds = s * 10 ^ p"
    by (simp add: radix_value_zeros radix_value_nat_to_digits)
  have rnd: "round_to_double (radix_value 10 ?ds) = m"
    unfolding val using sp assms(1) by (rule shortest_from_rounds)
  have zero: "is_radix_digit 10 CHR ''0''"
    by (simp add: is_radix_digit_def char_value_zero)
  have digits: "is_radix_digit 10 ch" if "ch \<in> set ?ds" for ch
    using that nat_to_digits_digits [of ch s] zero by auto
  have ne: "?ds \<noteq> []"
    by (simp add: nat_to_digits_nonempty)
  have small: "round_to_double (radix_value 10 ?ds) < infinity_threshold"
    unfolding rnd using assms(2) by (rule below_threshold)
  show "parseInt (magnitude_to_string m) = Finite (int m)"
    unfolding str using parseInt_digits(1) [OF digits ne small] rnd by simp
  show "parseInt (CHR ''-'' # magnitude_to_string m) = Finite (- int m)"
    unfolding str using parseInt_digits(2) [OF digits ne small] rnd by simp
qed

lemma parseInt_number_to_string:
  assumes "is_Number n" "\<bar>n\<bar> < 10 ^ 21"
  shows "parseInt (number_to_string n) = Finite n"
proof (cases "n < 0")
  case True
  then have abs: "\<bar>n\<bar> = - n" by simp
  have r: "round_to_double (nat (- n)) = nat (- n)"
    using assms(1) unfolding is_Number_def abs by blast
  have "nat (- n) < nat (10 ^ 21)"
    using assms(2) unfolding abs by (simp only: zless_nat_conj) simp
  then have b: "nat (- n) < 10 ^ 21" by simp
  have "int (nat (- n)) = - n" using True by simp
  with parseInt_magnitude(2) [OF r b] have "parseInt (CHR ''-'' # magnitude_to_string (nat (- n))) = Finite n"
    by simp
  with True show ?thesis by (simp add: number_to_string_def)
next
  case False
  then have abs: "\<bar>n\<bar> = n" by simp
  have r: "round_to_double (nat n) = nat n"
    using assms(1) unfolding is_Number_def abs by blast
  have "nat n < nat (10 ^ 21)"
    using assms(2) unfolding abs by (simp only: zless_nat_conj) simp
  then have b: "nat n < 10 ^ 21" by simp
  have "int (nat n) = n" using False by simp
  with parseInt_magnitude(1) [OF r b] have "parseInt (magnitude_to_string (nat n)) = Finite n"
    by simp
  with False show ?thesis by (simp add: number_to_string_def)
qed

lemma is_Number_safe: "\<bar>n\<bar> < 2 ^ 53 \<Longrightarrow> is_Number n"
proof -
  assume a: "\<bar>n\<bar> < 2 ^ 53"
  then have "nat \<bar>n\<bar> < nat (2 ^ 53)" by (simp only: zless_nat_conj) simp
  then have lt: "nat \<bar>n\<bar> < 2 ^ 53" by simp
  then have "round_to_double (nat \<bar>n\<bar>) = nat \<bar>n\<bar>"
    by (simp add: round_to_double_def)
  moreover have "(2::nat) ^ 53 < 2 ^ 1024" by simp
  with lt have "nat \<bar>n\<bar> < infinity_threshold"
    unfolding infinity_threshold_def by (rule less_trans)
  ultimately show ?thesis by (simp add: is_Number_def)
qed

section \<open>Properties of the scene controller\<close>

subsection \<open>Writing through a reference\<close>

lemma update_mesh_fields [simp]:
  "entities (update_mesh a f c) = entities c"
  "selectedEntity (update_mesh a f c) = selectedEntity c"
  "hoveredEntity (update_mesh a f c) = hoveredEntity c"
  "length (scene_meshes (update_mesh a f c)) = length (scene_meshes c)"
  by (simp_all add: update_mesh_def)

lemma mesh_at_update_mesh:
  "mesh_at (update_mesh a f c) b =
     (if b = a \<and> a < length (scene_meshes c) then f (mesh_at c a) else mesh_at c b)"
  by (cases "a < length (scene_meshes c)") (auto simp: update_mesh_def mesh_at_def list_update_beyond)

lemma mesh_at_update_mesh_other [simp]:
  "b \<noteq> a \<Longrightarrow> mesh_at (update_mesh a f c) b = mesh_at c b"
  by (simp add: mesh_at_update_mesh)

lemma mesh_at_update_mesh_same [simp]:
  "a < length (scene_meshes c) \<Longrightarrow> mesh_at (update_mesh a f c) a = f (mesh_at c a)"
  by (simp add: mesh_at_update_mesh)

lemma mesh_at_record_update [simp]:
  "mesh_at (c\<lparr>selectedEntity := s\<rparr>) b = mesh_at c b"
  "mesh_at (c\<lparr>hoveredEntity := h\<rparr>) b = mesh_at c b"
  "mesh_at (c\<lparr>entities := es\<rparr>) b = mesh_at c b"
  by (simp_all add: mesh_at_def)

lemma fold_update_mesh_fields [simp]:
  "entities (fold (\<lambda>a. update_mesh a f) as c) = entities c"
  "selectedEntity (fold (\<lambda>a. update_mesh a f) as c) = selectedEntity c"
  "hoveredEntity (fold (\<lambda>a. update_mesh a f) as c) = hoveredEntity c"
  "length (scene_meshes (fold (\<lambda>a. update_mesh a f) as c)) = length (scene_meshes c)"
  by (induction as arbitrary: c; simp)+

lemma mesh_at_fold_update_mesh:
  assumes "\<And>m. f (f m) = f m"
  shows "mesh_at (fold (\<lambda>a. update_mesh a f) as c) b =
     (if b \<in> set as \<and> b < length (scene_meshes c) then f (mesh_at c b) else mesh_at c b)"
proof (induction as arbitrary: c)
  case Nil
  show ?case by simp
next
  case (Cons a as)
  show ?case
    using assms by (auto simp: Cons.IH mesh_at_update_mesh)
qed

lemma hideAllEntities_fields [simp]:
  "entities (hideAllEntities c) = entities c"
  "selectedEntity (hideAllEntities c) = selectedEntity c"
  "hoveredEntity (hideAllEntities c) = hoveredEntity c"
  "length (scene_meshes (hideAllEntities c)) = length (scene_meshes c)"
  by (simp_all add: hideAllEntities_def)

lemma mesh_at_hideAllEntities:
  "mesh_at (hideAllEntities c) b =
     (if b \<in> snd ` set (entities c) \<and> b < length (scene_meshes c)
      then (mesh_at c b)\<lparr>enabled := False\<rparr> else mesh_at c b)"
  by (simp add: hideAllEntities_def mesh_at_fold_update_mesh)


subsection \<open>What each operation changes\<close>

lemma createEntity_fields [simp]:
  "entities (fst (createEntity e c)) = AList.update (entity_id e) (length (scene_meshes c)) (entities c)"
  "selectedEntity (fst (createEntity e c)) = selectedEntity c"
  "hoveredEntity (fst (createEntity e c)) = hoveredEntity c"
  "length (scene_meshes (fst (createEntity e c))) = Suc (length (scene_meshes c))"
  "snd (createEntity e c) = length (scene_meshes c)"
  by (simp_all add: createEntity_def Let_def)

lemma mesh_at_createEntity_old [simp]:
  "b < length (scene_meshes c) \<Longrightarrow> mesh_at (fst (createEntity e c)) b = mesh_at c b"
  by (simp add: createEntity_def Let_def mesh_at_def nth_append)

lemma mesh_at_createEntity_new [simp]:
  "mesh_at (fst (createEntity e c)) (length (scene_meshes c)) =
     \<lparr>mesh_name = ''sphere'', mesh_id = number_to_string (entity_id e), material = EntityMaterial,
      isPickable = True, position = Vector3 0 0 0, enabled = True\<rparr>"
  by (simp add: createEntity_def Let_def mesh_at_def)

lemma setEntity_Some:
  "map_of (entities c) (entity_id e) = Some a \<Longrightarrow>
   setEntity e c =
     update_mesh a (\<lambda>m. m\<lparr>enabled := True\<rparr>)
       (update_mesh a (\<lambda>m. m\<lparr>position := getEntityPosition e\<rparr>) c)"
  by (simp add: setEntity_def)

lemma setEntity_None:
  "map_of (entities c) (entity_id e) = None \<Longrightarrow>
   setEntity e c =
     update_mesh (length (scene_meshes c)) (\<lambda>m. m\<lparr>enabled := True\<rparr>)
       (update_mesh (length (scene_meshes c)) (\<lambda>m. m\<lparr>position := getEntityPosition e\<rparr>)
          (fst (createEntity e c)))"
  by (simp add: setEntity_def createEntity_def Let_def)

lemma setEntity_backrefs [simp]:
  "selectedEntity (setEntity e c) = selectedEntity c"
  "hoveredEntity (setEntity e c) = hoveredEntity c"
  by (cases "map_of (entities c) (entity_id e)"; simp add: setEntity_Some setEntity_None)+

lemma setEntity_entities:
  "entities (setEntity e c) =
     (case map_of (entities c) (entity_id e) of
        None \<Rightarrow> AList.update (entity_id e) (length (scene_meshes c)) (entities c)
      | Some a \<Rightarrow> entities c)"
  by (cases "map_of (entities c) (entity_id e)"; simp add: setEntity_Some setEntity_None)

lemma markEntityAsSelected_None:
  "map_of (entities c) ident = None \<Longrightarrow> markEntityAsSelected ident c = c"
  by (simp add: markEntityAsSelected_def)

lemma onEntityHovered_None:
  "map_of (entities c) ident = None \<Longrightarrow> onEntityHovered ident c = c"
  by (simp add: onEntityHovered_def)

lemma markEntityAsSelected_fields [simp]:
  "entities (markEntityAsSelected ident c) = entities c"
  "hoveredEntity (markEntityAsSelected ident c) = hoveredEntity c"
  "length (scene_meshes (markEntityAsSelected ident c)) = length (scene_meshes c)"
  by (simp_all add: markEntityAsSelected_def Let_def split: option.splits)

lemma markEntityAsSelected_selected:
  "selectedEntity (markEntityAsSelected ident c) =
     (case map_of (entities c) ident of None \<Rightarrow> selectedEntity c | Some a \<Rightarrow> Some a)"
  by (simp add: markEntityAsSelected_def Let_def split: option.splits)

lemma restore_hovered_fields [simp]:
  "entities (restore_hovered c) = entities c"
  "selectedEntity (restore_hovered c) = selectedEntity c"
  "hoveredEntity (restore_hovered c) = hoveredEntity c"
  "length (scene_meshes (restore_hovered c)) = length (scene_meshes c)"
  by (simp_all add: restore_hovered_def split: option.splits)

lemma mesh_at_restore_hovered:
  "mesh_at (restore_hovered c) b =
     (if hoveredEntity c = Some b \<and> b < length (scene_meshes c)
      then (mesh_at c b)\<lparr>material := (if selectedEntity c = Some b then SelectedMaterial else EntityMaterial)\<rparr>
      else mesh_at c b)"
  by (auto simp: restore_hovered_def mesh_at_update_mesh split: option.splits)

lemma onEntityHovered_fields [simp]:
  "entities (onEntityHovered ident c) = entities c"
  "selectedEntity (onEntityHovered ident c) = selectedEntity c"
  "length (scene_meshes (onEntityHovered ident c)) = length (scene_meshes c)"
  by (simp_all add: onEntityHovered_def Let_def split: option.splits)

lemma onEntityHovered_hovered:
  "hoveredEntity (onEntityHovered ident c) =
     (case map_of (entities c) ident of None \<Rightarrow> hoveredEntity c | Some a \<Rightarrow> Some a)"
  by (simp add: onEntityHovered_def Let_def split: option.splits)

lemma onEntityStopHovered_fields [simp]:
  "entities (onEntityStopHovered c) = entities c"
  "selectedEntity (onEntityStopHovered c) = selectedEntity c"
  "hoveredEntity (onEntityStopHovered c) = None"
  "length (scene_meshes (onEntityStopHovered c)) = length (scene_meshes c)"
  by (simp_all add: onEntityStopHovered_def)

lemma mesh_at_onEntityStopHovered:
  "mesh_at (onEntityStopHovered c) b = mesh_at (restore_hovered c) b"
  by (simp add: onEntityStopHovered_def)

lemma mesh_at_onEntityHovered:
  "map_of (entities c) ident = Some a \<Longrightarrow>
   mesh_at (onEntityHovered ident c) b =
     (if b = a \<and> a < length (scene_meshes c)
      then (mesh_at (restore_hovered c) a)\<lparr>material := HoveredMaterial\<rparr>
      else mesh_at (restore_hovered c) b)"
  by (simp add: onEntityHovered_def Let_def mesh_at_update_mesh)

lemma mesh_at_markEntityAsSelected:
  "map_of (entities c) ident = Some a \<Longrightarrow>
   mesh_at (markEntityAsSelected ident c) b =
     (if b = a \<and> a < length (scene_meshes c) then (mesh_at c a)\<lparr>material := SelectedMaterial\<rparr>
      else if selectedEntity c = Some b \<and> b < length (scene_meshes c)
           then (mesh_at c b)\<lparr>material := EntityMaterial\<rparr>
           else mesh_at c b)"
  by (auto simp: markEntityAsSelected_def Let_def mesh_at_update_mesh split: option.splits)

lemma onPointerDown_state [simp]: "fst (onPointerDown c p) = c"
  by (simp add: onPointerDown_def split: picking_info.splits)


subsection \<open>References stay valid\<close>

lemma well_formed_initialize: "well_formed initialize"
  by (simp add: well_formed_def initialize_def)

lemma set_update_subset: "set (AList.update k v al) \<subseteq> insert (k, v) (set al)"
  by (induction al) auto

lemma distinct_snd_update:
  "distinct (map snd al) \<Longrightarrow> v \<notin> snd ` set al \<Longrightarrow> distinct (map snd (AList.update k v al))"
proof (induction al)
  case Nil
  then show ?case by simp
next
  case (Cons p al)
  have "snd ` set (AList.update k v al) \<subseteq> insert v (snd ` set al)"
    using set_update_subset [of k v al] by force
  with Cons show ?case by (auto simp: image_iff)
qed

lemma map_of_entities_ref:
  "well_formed c \<Longrightarrow> map_of (entities c) k = Some a \<Longrightarrow> sphere_ref c a \<and> mesh_id (mesh_at c a) = number_to_string k"
  by (auto simp: well_formed_def dest: map_of_SomeD)

lemma sphere_ref_update_mesh:
  "(\<And>m. isPickable (f m) = isPickable m) \<Longrightarrow> sphere_ref (update_mesh b f c) a = sphere_ref c a"
  by (simp add: sphere_ref_def mesh_at_update_mesh)

lemma well_formed_update_mesh:
  assumes "well_formed c" "\<And>m. isPickable (f m) = isPickable m" "\<And>m. mesh_id (f m) = mesh_id m"
  shows "well_formed (update_mesh b f c)"
  using assms unfolding well_formed_def
  by (auto simp: sphere_ref_update_mesh mesh_at_update_mesh)

lemma well_formed_backrefs:
  "well_formed c \<Longrightarrow> sphere_ref c a \<Longrightarrow> well_formed (c\<lparr>selectedEntity := Some a\<rparr>)"
  "well_formed c \<Longrightarrow> sphere_ref c a \<Longrightarrow> well_formed (c\<lparr>hoveredEntity := Some a\<rparr>)"
  "well_formed c \<Longrightarrow> well_formed (c\<lparr>hoveredEntity := None\<rparr>)"
  by (auto simp: well_formed_def sphere_ref_def)

lemma well_formed_createEntity:
  assumes "well_formed c"
  shows "well_formed (fst (createEntity e c))"
proof -
  let ?n = "length (scene_meshes c)"
  let ?c' = "fst (createEntity e c)"
  have old: "sphere_ref c a \<Longrightarrow> sphere_ref ?c' a" for a
    by (simp add: sphere_ref_def)
  have fresh: "?n \<notin> snd ` set (entities c)"
    using assms by (auto simp: well_formed_def sphere_ref_def)
  have d1: "distinct (map fst (entities ?c'))"
    using assms by (simp add: well_formed_def distinct_update)
  have d2: "distinct (map snd (entities ?c'))"
    using assms fresh by (simp add: well_formed_def distinct_snd_update)
  have ents: "sphere_ref ?c' a \<and> mesh_id (mesh_at ?c' a) = number_to_string k"
    if "(k, a) \<in> set (entities ?c')" for k a
  proof (cases "(k, a) = (entity_id e, ?n)")
    case True
    then show ?thesis by (simp add: sphere_ref_def)
  next
    case False
    with that have "(k, a) \<in> set (entities c)"
      using set_update_subset [of "entity_id e" ?n "entities c"] by auto
    with assms have "sphere_ref c a \<and> mesh_id (mesh_at c a) = number_to_string k"
      by (auto simp: well_formed_def)
    then show ?thesis by (simp add: sphere_ref_def)
  qed
  show ?thesis
    unfolding well_formed_def using d1 d2 ents assms old
    by (auto simp: well_formed_def)
qed

lemma well_formed_setEntity: "well_formed c \<Longrightarrow> well_formed (setEntity e c)"
  by (cases "map_of (entities c) (entity_id e)")
     (simp_all add: setEntity_Some setEntity_None well_formed_update_mesh well_formed_createEntity)

lemma well_formed_fold_update_mesh:
  assumes "\<And>m. isPickable (f m) = isPickable m" "\<And>m. mesh_id (f m) = mesh_id m"
  shows "well_formed c \<Longrightarrow> well_formed (fold (\<lambda>a. update_mesh a f) as c)"
  by (induction as arbitrary: c) (simp_all add: well_formed_update_mesh assms)

lemma well_formed_hideAllEntities: "well_formed c \<Longrightarrow> well_formed (hideAllEntities c)"
  by (simp add: hideAllEntities_def well_formed_fold_update_mesh)


lemma sphere_ref_backrefs [simp]:
  "sphere_ref (c\<lparr>selectedEntity := s\<rparr>) a = sphere_ref c a"
  "sphere_ref (c\<lparr>hoveredEntity := h\<rparr>) a = sphere_ref c a"
  by (simp_all add: sphere_ref_def)

lemma well_formed_markEntityAsSelected:
  assumes "well_formed c"
  shows "well_formed (markEntityAsSelected ident c)"
proof (cases "map_of (entities c) ident")
  case None
  with assms show ?thesis by (simp add: markEntityAsSelected_None)
next
  case (Some a)
  let ?c1 = "case selectedEntity c of None \<Rightarrow> c
             | Some prev \<Rightarrow> update_mesh prev (\<lambda>m. m\<lparr>material := EntityMaterial\<rparr>) c"
  let ?c2 = "update_mesh a (\<lambda>m. m\<lparr>material := SelectedMaterial\<rparr>) ?c1"
  have "well_formed ?c1"
    using assms by (simp add: well_formed_update_mesh split: option.splits)
  then have c2: "well_formed ?c2"
    by (simp add: well_formed_update_mesh)
  have "sphere_ref c a"
    using assms Some map_of_entities_ref by blast
  then have "sphere_ref ?c2 a"
    by (simp add: sphere_ref_update_mesh split: option.splits)
  with c2 have "well_formed (?c2\<lparr>selectedEntity := Some a\<rparr>)"
    by (simp add: well_formed_backrefs)
  then show ?thesis
    using Some by (simp add: markEntityAsSelected_def Let_def)
qed

lemma well_formed_restore_hovered: "well_formed c \<Longrightarrow> well_formed (restore_hovered c)"
  by (simp add: restore_hovered_def well_formed_update_mesh split: option.splits)

lemma sphere_ref_restore_hovered [simp]: "sphere_ref (restore_hovered c) a = sphere_ref c a"
  by (simp add: restore_hovered_def sphere_ref_update_mesh split: option.splits)

lemma well_formed_onEntityHovered:
  assumes "well_formed c"
  shows "well_formed (onEntityHovered ident c)"
proof (cases "map_of (entities c) ident")
  case None
  with assms show ?thesis by (simp add: onEntityHovered_None)
next
  case (Some a)
  let ?c2 = "update_mesh a (\<lambda>m. m\<lparr>material := HoveredMaterial\<rparr>) (restore_hovered c)"
  have c2: "well_formed ?c2"
    using assms by (simp add: well_formed_update_mesh well_formed_restore_hovered)
  have "sphere_ref c a"
    using assms Some map_of_entities_ref by blast
  then have "sphere_ref ?c2 a"
    by (simp add: sphere_ref_update_mesh)
  with c2 have "well_formed (?c2\<lparr>hoveredEntity := Some a\<rparr>)"
    by (simp add: well_formed_backrefs)
  then show ?thesis
    using Some by (simp add: onEntityHovered_def Let_def)
qed

lemma well_formed_onEntityStopHovered: "well_formed c \<Longrightarrow> well_formed (onEntityStopHovered c)"
  by (simp add: onEntityStopHovered_def well_formed_backrefs well_formed_restore_hovered)

lemma well_formed_onPointerMove: "well_formed c \<Longrightarrow> well_formed (onPointerMove c p)"
  by (simp add: onPointerMove_def well_formed_onEntityHovered well_formed_onEntityStopHovered
      split: picking_info.splits number.splits)

lemma well_formed_exec: "well_formed c \<Longrightarrow> well_formed (exec call c)"
  by (cases call)
     (simp_all add: well_formed_createEntity well_formed_setEntity well_formed_hideAllEntities
        well_formed_markEntityAsSelected well_formed_onEntityHovered
        well_formed_onEntityStopHovered well_formed_onPointerMove)

lemma well_formed_fold_exec: "well_formed c \<Longrightarrow> well_formed (fold exec calls c)"
  by (induction calls arbitrary: c) (simp_all add: well_formed_exec)

lemma well_formed_run: "well_formed (run calls initialize)"
  by (simp add: run_def well_formed_fold_exec well_formed_initialize)

lemma run_snoc: "run (calls @ [call]) c = exec call (run calls c)"
  by (simp add: run_def)


subsection \<open>The materials follow the back-references\<close>

lemma materials_ok_initialize: "materials_ok initialize"
  by (auto simp: materials_ok_def sphere_ref_def initialize_def mesh_at_def grid_mesh_def)

lemma materials_okD:
  "materials_ok c \<Longrightarrow> sphere_ref c a \<Longrightarrow>
     material (mesh_at c a) \<noteq> GroundMaterial \<and>
     (selectedEntity c \<noteq> Some a \<and> hoveredEntity c \<noteq> Some a \<longrightarrow> material (mesh_at c a) = EntityMaterial) \<and>
     (selectedEntity c = Some a \<and> hoveredEntity c \<noteq> Some a \<longrightarrow> material (mesh_at c a) = SelectedMaterial) \<and>
     (material (mesh_at c a) = HoveredMaterial \<longrightarrow> hoveredEntity c = Some a)"
  unfolding materials_ok_def by blast

text \<open>
  The invariant for one sphere, given what the operation has done to its material and
  to the two back-references.
\<close>

lemma materials_okI:
  assumes "\<And>a. sphere_ref c' a \<Longrightarrow>
     material (mesh_at c' a) \<noteq> GroundMaterial \<and>
     (selectedEntity c' \<noteq> Some a \<and> hoveredEntity c' \<noteq> Some a \<longrightarrow> material (mesh_at c' a) = EntityMaterial) \<and>
     (selectedEntity c' = Some a \<and> hoveredEntity c' \<noteq> Some a \<longrightarrow> material (mesh_at c' a) = SelectedMaterial) \<and>
     (material (mesh_at c' a) = HoveredMaterial \<longrightarrow> hoveredEntity c' = Some a)"
  shows "materials_ok c'"
  unfolding materials_ok_def using assms by blast

lemma materials_ok_same:
  assumes ok: "materials_ok c"
    and ref: "\<And>a. sphere_ref c' a \<Longrightarrow> sphere_ref c a"
    and mat: "\<And>a. sphere_ref c' a \<Longrightarrow> material (mesh_at c' a) = material (mesh_at c a)"
    and sel: "selectedEntity c' = selectedEntity c"
    and hov: "hoveredEntity c' = hoveredEntity c"
  shows "materials_ok c'"
proof (rule materials_okI)
  fix a
  assume a: "sphere_ref c' a"
  show "material (mesh_at c' a) \<noteq> GroundMaterial \<and>
     (selectedEntity c' \<noteq> Some a \<and> hoveredEntity c' \<noteq> Some a \<longrightarrow> material (mesh_at c' a) = EntityMaterial) \<and>
     (selectedEntity c' = Some a \<and> hoveredEntity c' \<noteq> Some a \<longrightarrow> material (mesh_at c' a) = SelectedMaterial) \<and>
     (material (mesh_at c' a) = HoveredMaterial \<longrightarrow> hoveredEntity c' = Some a)"
    unfolding mat [OF a] sel hov using materials_okD [OF ok ref [OF a]] by blast
qed

lemma materials_ok_update_mesh:
  assumes ok: "materials_ok c"
    and pick: "\<And>m. isPickable (f m) = isPickable m"
    and mat: "\<And>m. material (f m) = material m"
  shows "materials_ok (update_mesh b f c)"
proof (rule materials_ok_same [OF ok])
  show "sphere_ref (update_mesh b f c) a \<Longrightarrow> sphere_ref c a" for a
    by (simp add: sphere_ref_update_mesh pick)
  show "material (mesh_at (update_mesh b f c) a) = material (mesh_at c a)" for a
    by (simp add: mesh_at_update_mesh mat)
qed simp_all

lemma materials_ok_fold_update_mesh:
  assumes "\<And>m. isPickable (f m) = isPickable m" "\<And>m. material (f m) = material m"
  shows "materials_ok c \<Longrightarrow> materials_ok (fold (\<lambda>a. update_mesh a f) as c)"
  by (induction as arbitrary: c) (simp_all add: materials_ok_update_mesh assms)

lemma materials_ok_hideAllEntities: "materials_ok c \<Longrightarrow> materials_ok (hideAllEntities c)"
  by (simp add: hideAllEntities_def materials_ok_fold_update_mesh)

lemma sphere_ref_createEntity:
  "sphere_ref (fst (createEntity e c)) a \<longleftrightarrow> sphere_ref c a \<or> a = length (scene_meshes c)"
  by (cases "a < length (scene_meshes c)") (auto simp: sphere_ref_def)

lemma materials_ok_createEntity:
  assumes ok: "materials_ok c" and wf: "well_formed c"
  shows "materials_ok (fst (createEntity e c))"
proof (rule materials_okI)
  fix a
  let ?c' = "fst (createEntity e c)"
  assume a: "sphere_ref ?c' a"
  have sel: "selectedEntity ?c' = selectedEntity c" and hov: "hoveredEntity ?c' = hoveredEntity c"
    by simp_all
  show "material (mesh_at ?c' a) \<noteq> GroundMaterial \<and>
     (selectedEntity ?c' \<noteq> Some a \<and> hoveredEntity ?c' \<noteq> Some a \<longrightarrow> material (mesh_at ?c' a) = EntityMaterial) \<and>
     (selectedEntity ?c' = Some a \<and> hoveredEntity ?c' \<noteq> Some a \<longrightarrow> material (mesh_at ?c' a) = SelectedMaterial) \<and>
     (material (mesh_at ?c' a) = HoveredMaterial \<longrightarrow> hoveredEntity ?c' = Some a)"
  proof (cases "a = length (scene_meshes c)")
    case True
    have m: "material (mesh_at ?c' a) = EntityMaterial"
      unfolding True by simp
    have "\<not> sphere_ref c a"
      using True by (simp add: sphere_ref_def)
    then have "selectedEntity c \<noteq> Some a"
      using wf unfolding well_formed_def by blast
    then show ?thesis unfolding m sel hov by simp
  next
    case False
    with a have old: "sphere_ref c a" by (simp add: sphere_ref_createEntity)
    then have "a < length (scene_meshes c)" by (simp add: sphere_ref_def)
    then have m: "material (mesh_at ?c' a) = material (mesh_at c a)" by simp
    show ?thesis unfolding m sel hov using materials_okD [OF ok old] by blast
  qed
qed

lemma materials_ok_setEntity: "materials_ok c \<Longrightarrow> well_formed c \<Longrightarrow> materials_ok (setEntity e c)"
  by (cases "map_of (entities c) (entity_id e)")
     (simp_all add: setEntity_Some setEntity_None materials_ok_update_mesh materials_ok_createEntity)

lemma sphere_ref_markEntityAsSelected:
  "sphere_ref (markEntityAsSelected ident c) a = sphere_ref c a"
  by (cases "map_of (entities c) ident")
     (simp_all add: markEntityAsSelected_None sphere_ref_def mesh_at_markEntityAsSelected)

lemma materials_ok_markEntityAsSelected:
  assumes ok: "materials_ok c" and wf: "well_formed c"
  shows "materials_ok (markEntityAsSelected ident c)"
proof (cases "map_of (entities c) ident")
  case None
  with ok show ?thesis by (simp add: markEntityAsSelected_None)
next
  case (Some a)
  then have "sphere_ref c a" using wf map_of_entities_ref by blast
  then have lta: "a < length (scene_meshes c)" by (simp add: sphere_ref_def)
  let ?c' = "markEntityAsSelected ident c"
  have sel: "selectedEntity ?c' = Some a"
    using Some by (simp add: markEntityAsSelected_selected)
  have hov: "hoveredEntity ?c' = hoveredEntity c" by simp
  show ?thesis
  proof (rule materials_okI)
    fix b
    assume "sphere_ref ?c' b"
    then have b: "sphere_ref c b" by (simp add: sphere_ref_markEntityAsSelected)
    then have ltb: "b < length (scene_meshes c)" by (simp add: sphere_ref_def)
    have m: "material (mesh_at ?c' b) =
        (if b = a then SelectedMaterial
         else if selectedEntity c = Some b then EntityMaterial else material (mesh_at c b))"
      using lta ltb by (simp add: mesh_at_markEntityAsSelected [OF Some])
    show "material (mesh_at ?c' b) \<noteq> GroundMaterial \<and>
       (selectedEntity ?c' \<noteq> Some b \<and> hoveredEntity ?c' \<noteq> Some b \<longrightarrow> material (mesh_at ?c' b) = EntityMaterial) \<and>
       (selectedEntity ?c' = Some b \<and> hoveredEntity ?c' \<noteq> Some b \<longrightarrow> material (mesh_at ?c' b) = SelectedMaterial) \<and>
       (material (mesh_at ?c' b) = HoveredMaterial \<longrightarrow> hoveredEntity ?c' = Some b)"
    proof (cases "b = a")
      case True
      then show ?thesis unfolding m sel hov by simp
    next
      case False
      then have ne: "Some a \<noteq> Some b" by simp
      show ?thesis
      proof (cases "selectedEntity c = Some b")
        case True
        then show ?thesis unfolding m sel hov using False by simp
      next
        case nsel: False
        have m': "material (mesh_at ?c' b) = material (mesh_at c b)"
          unfolding m using False nsel by simp
        show ?thesis unfolding m' sel hov using materials_okD [OF ok b] nsel ne by blast
      qed
    qed
  qed
qed

lemma sphere_ref_onEntityHovered:
  "sphere_ref (onEntityHovered ident c) a = sphere_ref c a"
  by (cases "map_of (entities c) ident")
     (simp_all add: onEntityHovered_None sphere_ref_def mesh_at_onEntityHovered mesh_at_restore_hovered)

text \<open>What the shared block "Restore previous entity material" leaves on a sphere.\<close>

lemma materials_ok_restore_hovered:
  assumes ok: "materials_ok c" and b: "sphere_ref c b"
  shows "material (mesh_at (restore_hovered c) b) =
           (if hoveredEntity c = Some b
            then (if selectedEntity c = Some b then SelectedMaterial else EntityMaterial)
            else material (mesh_at c b))"
  using b by (simp add: mesh_at_restore_hovered sphere_ref_def)

lemma restored_material:
  assumes ok: "materials_ok c" and b: "sphere_ref c b"
  shows "material (mesh_at (restore_hovered c) b) =
           (if selectedEntity c = Some b then SelectedMaterial else EntityMaterial)"
proof (cases "hoveredEntity c = Some b")
  case True
  then show ?thesis unfolding materials_ok_restore_hovered [OF ok b] by simp
next
  case False
  have "material (mesh_at (restore_hovered c) b) = material (mesh_at c b)"
    unfolding materials_ok_restore_hovered [OF ok b] using False by simp
  moreover have "material (mesh_at c b) = (if selectedEntity c = Some b then SelectedMaterial else EntityMaterial)"
  proof (cases "selectedEntity c = Some b")
    case True
    with False materials_okD [OF ok b] have "material (mesh_at c b) = SelectedMaterial" by blast
    with True show ?thesis by simp
  next
    case nsel: False
    with False materials_okD [OF ok b] have "material (mesh_at c b) = EntityMaterial" by blast
    with nsel show ?thesis by simp
  qed
  ultimately show ?thesis by simp
qed

lemma materials_ok_onEntityHovered:
  assumes ok: "materials_ok c" and wf: "well_formed c"
  shows "materials_ok (onEntityHovered ident c)"
proof (cases "map_of (entities c) ident")
  case None
  with ok show ?thesis by (simp add: onEntityHovered_None)
next
  case (Some a)
  then have "sphere_ref c a" using wf map_of_entities_ref by blast
  then have lta: "a < length (scene_meshes c)" by (simp add: sphere_ref_def)
  let ?c' = "onEntityHovered ident c"
  have hov: "hoveredEntity ?c' = Some a"
    using Some by (simp add: onEntityHovered_hovered)
  have sel: "selectedEntity ?c' = selectedEntity c" by simp
  show ?thesis
  proof (rule materials_okI)
    fix b
    assume "sphere_ref ?c' b"
    then have b: "sphere_ref c b" by (simp add: sphere_ref_onEntityHovered)
    have m: "material (mesh_at ?c' b) =
        (if b = a then HoveredMaterial
         else if selectedEntity c = Some b then SelectedMaterial else EntityMaterial)"
      using lta restored_material [OF ok b] by (simp add: mesh_at_onEntityHovered [OF Some])
    show "material (mesh_at ?c' b) \<noteq> GroundMaterial \<and>
       (selectedEntity ?c' \<noteq> Some b \<and> hoveredEntity ?c' \<noteq> Some b \<longrightarrow> material (mesh_at ?c' b) = EntityMaterial) \<and>
       (selectedEntity ?c' = Some b \<and> hoveredEntity ?c' \<noteq> Some b \<longrightarrow> material (mesh_at ?c' b) = SelectedMaterial) \<and>
       (material (mesh_at ?c' b) = HoveredMaterial \<longrightarrow> hoveredEntity ?c' = Some b)"
      unfolding m sel hov by (cases "b = a"; cases "selectedEntity c = Some b"; simp)
  qed
qed

lemma sphere_ref_onEntityStopHovered:
  "sphere_ref (onEntityStopHovered c) a = sphere_ref c a"
  by (simp add: onEntityStopHovered_def)

lemma materials_ok_onEntityStopHovered:
  assumes ok: "materials_ok c"
  shows "materials_ok (onEntityStopHovered c)"
proof (rule materials_okI)
  fix b
  let ?c' = "onEntityStopHovered c"
  assume "sphere_ref ?c' b"
  then have b: "sphere_ref c b" by (simp add: sphere_ref_onEntityStopHovered)
  have m: "material (mesh_at ?c' b) =
      (if selectedEntity c = Some b then SelectedMaterial else EntityMaterial)"
    using restored_material [OF ok b] by (simp add: mesh_at_onEntityStopHovered)
  have sel: "selectedEntity ?c' = selectedEntity c" and hov: "hoveredEntity ?c' = None"
    by simp_all
  show "material (mesh_at ?c' b) \<noteq> GroundMaterial \<and>
       (selectedEntity ?c' \<noteq> Some b \<and> hoveredEntity ?c' \<noteq> Some b \<longrightarrow> material (mesh_at ?c' b) = EntityMaterial) \<and>
       (selectedEntity ?c' = Some b \<and> hoveredEntity ?c' \<noteq> Some b \<longrightarrow> material (mesh_at ?c' b) = SelectedMaterial) \<and>
       (material (mesh_at ?c' b) = HoveredMaterial \<longrightarrow> hoveredEntity ?c' = Some b)"
    unfolding m sel hov by (cases "selectedEntity c = Some b"; simp)
qed

lemma materials_ok_onPointerMove: "materials_ok c \<Longrightarrow> well_formed c \<Longrightarrow> materials_ok (onPointerMove c p)"
  by (simp add: onPointerMove_def materials_ok_onEntityHovered materials_ok_onEntityStopHovered
      split: picking_info.splits number.splits)

lemma materials_ok_exec: "materials_ok c \<Longrightarrow> well_formed c \<Longrightarrow> materials_ok (exec call c)"
  by (cases call)
     (simp_all add: materials_ok_createEntity materials_ok_setEntity materials_ok_hideAllEntities
        materials_ok_markEntityAsSelected materials_ok_onEntityHovered
        materials_ok_onEntityStopHovered materials_ok_onPointerMove)

lemma materials_ok_fold_exec:
  "materials_ok c \<Longrightarrow> well_formed c \<Longrightarrow> materials_ok (fold exec calls c)"
  by (induction calls arbitrary: c) (simp_all add: materials_ok_exec well_formed_exec)

lemma materials_ok_run: "materials_ok (run calls initialize)"
  by (simp add: run_def materials_ok_fold_exec materials_ok_initialize well_formed_initialize)

subsection \<open>The grid keeps its material\<close>

lemma grid_keptI:
  assumes "grid_kept c"
    and "length (scene_meshes c') = length (scene_meshes c)"
    and "\<And>a. a < length (scene_meshes c) \<Longrightarrow> isPickable (mesh_at c' a) = isPickable (mesh_at c a)"
    and "\<And>a. a < length (scene_meshes c) \<Longrightarrow> \<not> isPickable (mesh_at c a) \<Longrightarrow>
           material (mesh_at c' a) = material (mesh_at c a)"
  shows "grid_kept c'"
  using assms unfolding grid_kept_def by metis

lemma grid_kept_initialize: "grid_kept initialize"
  by (simp add: grid_kept_def initialize_def grid_mesh_def mesh_at_def)

lemma grid_kept_update_mesh:
  assumes "grid_kept c" "\<And>m. isPickable (f m) = isPickable m"
    and "(\<forall>m. material (f m) = material m) \<or> sphere_ref c b"
  shows "grid_kept (update_mesh b f c)"
proof (rule grid_keptI [OF assms(1)])
  show "length (scene_meshes (update_mesh b f c)) = length (scene_meshes c)" by simp
  show "isPickable (mesh_at (update_mesh b f c) a) = isPickable (mesh_at c a)" for a
    by (simp add: mesh_at_update_mesh assms(2))
  show "material (mesh_at (update_mesh b f c) a) = material (mesh_at c a)"
    if "\<not> isPickable (mesh_at c a)" for a
  proof (cases "a = b")
    case True
    with that have "\<not> sphere_ref c b" by (simp add: sphere_ref_def)
    with assms(3) have "\<forall>m. material (f m) = material m" by blast
    then show ?thesis by (simp add: mesh_at_update_mesh)
  next
    case False
    then show ?thesis by simp
  qed
qed

lemma grid_kept_fold_update_mesh:
  assumes "\<And>m. isPickable (f m) = isPickable m" "\<And>m. material (f m) = material m"
  shows "grid_kept c \<Longrightarrow> grid_kept (fold (\<lambda>a. update_mesh a f) as c)"
  by (induction as arbitrary: c) (simp_all add: grid_kept_update_mesh assms)

lemma grid_kept_hideAllEntities: "grid_kept c \<Longrightarrow> grid_kept (hideAllEntities c)"
  by (simp add: hideAllEntities_def grid_kept_fold_update_mesh)

lemma grid_kept_backrefs [simp]:
  "grid_kept (c\<lparr>selectedEntity := s\<rparr>) = grid_kept c"
  "grid_kept (c\<lparr>hoveredEntity := h\<rparr>) = grid_kept c"
  by (simp_all add: grid_kept_def)

lemma grid_kept_createEntity:
  assumes "grid_kept c"
  shows "grid_kept (fst (createEntity e c))"
  unfolding grid_kept_def
proof (intro allI impI, elim conjE)
  fix a
  assume lt: "a < length (scene_meshes (fst (createEntity e c)))"
    and np: "\<not> isPickable (mesh_at (fst (createEntity e c)) a)"
  have "a \<noteq> length (scene_meshes c)"
    using np by (cases "a = length (scene_meshes c)") simp_all
  with lt have old: "a < length (scene_meshes c)" by simp
  with np have "\<not> isPickable (mesh_at c a)" by simp
  with assms old have "material (mesh_at c a) = GroundMaterial"
    unfolding grid_kept_def by blast
  with old show "material (mesh_at (fst (createEntity e c)) a) = GroundMaterial" by simp
qed

lemma grid_kept_setEntity: "grid_kept c \<Longrightarrow> grid_kept (setEntity e c)"
  by (cases "map_of (entities c) (entity_id e)")
     (simp_all add: setEntity_Some setEntity_None grid_kept_update_mesh grid_kept_createEntity)

lemma grid_kept_markEntityAsSelected:
  assumes "grid_kept c" "well_formed c"
  shows "grid_kept (markEntityAsSelected ident c)"
proof (cases "map_of (entities c) ident")
  case None
  with assms show ?thesis by (simp add: markEntityAsSelected_None)
next
  case (Some a)
  then have a: "sphere_ref c a" using assms(2) map_of_entities_ref by blast
  let ?c1 = "case selectedEntity c of None \<Rightarrow> c
             | Some prev \<Rightarrow> update_mesh prev (\<lambda>m. m\<lparr>material := EntityMaterial\<rparr>) c"
  have c1: "grid_kept ?c1"
  proof (cases "selectedEntity c")
    case None
    with assms(1) show ?thesis by simp
  next
    case (Some prev)
    then have "sphere_ref c prev" using assms(2) unfolding well_formed_def by blast
    with assms(1) Some show ?thesis by (simp add: grid_kept_update_mesh)
  qed
  have "sphere_ref ?c1 a"
    using a by (simp add: sphere_ref_update_mesh split: option.splits)
  with c1 have "grid_kept (update_mesh a (\<lambda>m. m\<lparr>material := SelectedMaterial\<rparr>) ?c1)"
    by (simp add: grid_kept_update_mesh)
  then show ?thesis using Some by (simp add: markEntityAsSelected_def Let_def)
qed

lemma grid_kept_restore_hovered:
  assumes "grid_kept c" "well_formed c"
  shows "grid_kept (restore_hovered c)"
proof (cases "hoveredEntity c")
  case None
  with assms(1) show ?thesis by (simp add: restore_hovered_def)
next
  case (Some prev)
  then have "sphere_ref c prev" using assms(2) unfolding well_formed_def by blast
  with assms(1) Some show ?thesis by (simp add: restore_hovered_def grid_kept_update_mesh)
qed

lemma grid_kept_onEntityHovered:
  assumes "grid_kept c" "well_formed c"
  shows "grid_kept (onEntityHovered ident c)"
proof (cases "map_of (entities c) ident")
  case None
  with assms show ?thesis by (simp add: onEntityHovered_None)
next
  case (Some a)
  then have "sphere_ref c a" using assms(2) map_of_entities_ref by blast
  then have "sphere_ref (restore_hovered c) a" by simp
  then have "grid_kept (update_mesh a (\<lambda>m. m\<lparr>material := HoveredMaterial\<rparr>) (restore_hovered c))"
    using assms by (simp add: grid_kept_update_mesh grid_kept_restore_hovered)
  then show ?thesis using Some by (simp add: onEntityHovered_def Let_def)
qed

lemma grid_kept_onEntityStopHovered:
  "grid_kept c \<Longrightarrow> well_formed c \<Longrightarrow> grid_kept (onEntityStopHovered c)"
  by (simp add: onEntityStopHovered_def grid_kept_restore_hovered)

lemma grid_kept_exec: "grid_kept c \<Longrightarrow> well_formed c \<Longrightarrow> grid_kept (exec call c)"
  by (cases call)
     (simp_all add: grid_kept_createEntity grid_kept_setEntity grid_kept_hideAllEntities
        grid_kept_markEntityAsSelected grid_kept_onEntityHovered grid_kept_onEntityStopHovered
        onPointerMove_def split: picking_info.splits number.splits)

lemma grid_kept_fold_exec: "grid_kept c \<Longrightarrow> well_formed c \<Longrightarrow> grid_kept (fold exec calls c)"
  by (induction calls arbitrary: c) (simp_all add: grid_kept_exec well_formed_exec)

lemma grid_kept_run: "grid_kept (run calls initialize)"
  by (simp add: run_def grid_kept_fold_exec grid_kept_initialize well_formed_initialize)

text \<open>In a reachable state the hover material is on the hovered mesh only.\<close>

lemma hover_material_unique:
  assumes "a < length (scene_meshes (run calls initialize))"
    and "material (mesh_at (run calls initialize) a) = HoveredMaterial"
  shows "hoveredEntity (run calls initialize) = Some a"
proof -
  let ?c = "run calls initialize"
  have "isPickable (mesh_at ?c a)"
  proof (rule ccontr)
    assume "\<not> isPickable (mesh_at ?c a)"
    with assms(1) grid_kept_run [of calls] have "material (mesh_at ?c a) = GroundMaterial"
      unfolding grid_kept_def by blast
    with assms(2) show False by simp
  qed
  with assms(1) have "sphere_ref ?c a" by (simp add: sphere_ref_def)
  from materials_okD [OF materials_ok_run this] assms(2) show ?thesis by blast
qed

subsection \<open>Distinct ids have distinct meshes\<close>

lemma distinct_snd_unique:
  "distinct (map snd xs) \<Longrightarrow> (k, a) \<in> set xs \<Longrightarrow> (k', a) \<in> set xs \<Longrightarrow> k = k'"
  by (induction xs) (auto simp: image_iff)

lemma map_of_entities_inj:
  assumes "well_formed c" "map_of (entities c) k = Some a" "map_of (entities c) k' = Some a"
  shows "k = k'"
proof -
  have "(k, a) \<in> set (entities c)" "(k', a) \<in> set (entities c)"
    using assms(2,3) by (simp_all add: map_of_SomeD)
  moreover have "distinct (map snd (entities c))"
    using assms(1) by (simp add: well_formed_def)
  ultimately show ?thesis by (rule distinct_snd_unique [rotated])
qed

subsection \<open>Update passes\<close>

lemma update_absent: "map_of al k = None \<Longrightarrow> AList.update k v al = al @ [(k, v)]"
  by (induction al) (auto split: if_splits)

lemma mesh_at_setEntity_other:
  assumes "a < length (scene_meshes c)" "map_of (entities c) (entity_id e) \<noteq> Some a"
  shows "mesh_at (setEntity e c) a = mesh_at c a"
proof (cases "map_of (entities c) (entity_id e)")
  case None
  with assms(1) show ?thesis by (simp add: setEntity_None)
next
  case (Some b)
  with assms(2) have "a \<noteq> b" by simp
  with Some show ?thesis by (simp add: setEntity_Some)
qed

lemma mesh_at_setEntity_kept:
  assumes "a < length (scene_meshes c)"
  shows "mesh_name (mesh_at (setEntity e c) a) = mesh_name (mesh_at c a) \<and>
         mesh_id (mesh_at (setEntity e c) a) = mesh_id (mesh_at c a) \<and>
         material (mesh_at (setEntity e c) a) = material (mesh_at c a) \<and>
         isPickable (mesh_at (setEntity e c) a) = isPickable (mesh_at c a)"
proof (cases "map_of (entities c) (entity_id e)")
  case None
  with assms show ?thesis by (simp add: setEntity_None)
next
  case (Some b)
  then show ?thesis by (simp add: setEntity_Some mesh_at_update_mesh)
qed

lemma length_setEntity: "length (scene_meshes c) \<le> length (scene_meshes (setEntity e c))"
  by (cases "map_of (entities c) (entity_id e)") (simp_all add: setEntity_Some setEntity_None)

lemma mesh_at_setEntity_target:
  assumes "well_formed c" "map_of (entities (setEntity e c)) (entity_id e) = Some a"
  shows "enabled (mesh_at (setEntity e c) a) \<and> position (mesh_at (setEntity e c) a) = getEntityPosition e"
proof (cases "map_of (entities c) (entity_id e)")
  case None
  with assms(2) have "a = length (scene_meshes c)"
    by (simp add: setEntity_entities update_conv')
  with None show ?thesis by (simp add: setEntity_None)
next
  case (Some b)
  with assms(2) have "a = b" by (simp add: setEntity_entities)
  moreover have "b < length (scene_meshes c)"
    using map_of_entities_ref [OF assms(1) Some] by (simp add: sphere_ref_def)
  ultimately show ?thesis using Some by (simp add: setEntity_Some)
qed

lemma shown_exactly_hideAllEntities:
  assumes "well_formed c"
  shows "shown_exactly (hideAllEntities c) {}"
  unfolding shown_exactly_def
proof (intro allI impI)
  fix k a
  assume "map_of (entities (hideAllEntities c)) k = Some a"
  then have m: "map_of (entities c) k = Some a" by simp
  then have "a \<in> snd ` set (entities c)"
    by (force dest: map_of_SomeD)
  moreover have "a < length (scene_meshes c)"
    using map_of_entities_ref [OF assms m] by (simp add: sphere_ref_def)
  ultimately show "enabled (mesh_at (hideAllEntities c) a) \<longleftrightarrow> k \<in> {}"
    by (simp add: mesh_at_hideAllEntities)
qed

lemma shown_exactly_setEntity:
  assumes wf: "well_formed c" and sh: "shown_exactly c S"
  shows "shown_exactly (setEntity e c) (insert (entity_id e) S)"
  unfolding shown_exactly_def
proof (intro allI impI)
  fix k a
  assume m': "map_of (entities (setEntity e c)) k = Some a"
  show "enabled (mesh_at (setEntity e c) a) \<longleftrightarrow> k \<in> insert (entity_id e) S"
  proof (cases "k = entity_id e")
    case True
    with mesh_at_setEntity_target [OF wf] m' show ?thesis by simp
  next
    case False
    have m: "map_of (entities c) k = Some a"
      using m' False by (simp add: setEntity_entities update_conv' split: option.splits)
    then have lt: "a < length (scene_meshes c)"
      using map_of_entities_ref [OF wf] by (simp add: sphere_ref_def)
    have "map_of (entities c) (entity_id e) \<noteq> Some a"
      using map_of_entities_inj [OF wf m] False by blast
    then have "mesh_at (setEntity e c) a = mesh_at c a"
      using lt by (rule mesh_at_setEntity_other [rotated])
    moreover have "enabled (mesh_at c a) \<longleftrightarrow> k \<in> S"
      using sh m unfolding shown_exactly_def by blast
    ultimately show ?thesis using False by simp
  qed
qed

lemma fold_setEntity_pass:
  "well_formed c \<Longrightarrow> shown_exactly c S \<Longrightarrow>
   well_formed (fold setEntity es c) \<and> shown_exactly (fold setEntity es c) (S \<union> entity_id ` set es)"
proof (induction es arbitrary: c S)
  case Nil
  then show ?case by simp
next
  case (Cons e es)
  have "well_formed (setEntity e c)" "shown_exactly (setEntity e c) (insert (entity_id e) S)"
    using Cons.prems by (simp_all add: well_formed_setEntity shown_exactly_setEntity)
  from Cons.IH [OF this] show ?case by simp
qed

lemma entities_fold_setEntity:
  "entity_id ` set es \<subseteq> fst ` set (entities c) \<Longrightarrow> entities (fold setEntity es c) = entities c"
proof (induction es arbitrary: c)
  case Nil
  show ?case by simp
next
  case (Cons e es)
  then have "entity_id e \<in> fst ` set (entities c)" by simp
  then obtain a where "map_of (entities c) (entity_id e) = Some a"
    by (metis domD dom_map_of_conv_image_fst)
  then have same: "entities (setEntity e c) = entities c"
    by (simp add: setEntity_entities)
  with Cons.prems have "entity_id ` set es \<subseteq> fst ` set (entities (setEntity e c))" by simp
  from Cons.IH [OF this] same show ?case by simp
qed

lemma fold_setEntity_backrefs [simp]:
  "selectedEntity (fold setEntity es c) = selectedEntity c"
  "hoveredEntity (fold setEntity es c) = hoveredEntity c"
  by (induction es arbitrary: c; simp)+

lemma fold_setEntity_kept:
  "a < length (scene_meshes c) \<Longrightarrow>
     mesh_name (mesh_at (fold setEntity es c) a) = mesh_name (mesh_at c a) \<and>
     mesh_id (mesh_at (fold setEntity es c) a) = mesh_id (mesh_at c a) \<and>
     material (mesh_at (fold setEntity es c) a) = material (mesh_at c a) \<and>
     isPickable (mesh_at (fold setEntity es c) a) = isPickable (mesh_at c a)"
proof (induction es arbitrary: c)
  case Nil
  show ?case by simp
next
  case (Cons e es)
  have "a < length (scene_meshes (setEntity e c))"
    using Cons.prems length_setEntity [of c e] by simp
  from Cons.IH [OF this] mesh_at_setEntity_kept [OF Cons.prems, of e] show ?case by simp
qed

subsection \<open>Every sphere is tracked when meshes are created for new ids only\<close>

lemma all_tracked_initialize: "all_tracked initialize"
  by (auto simp: all_tracked_def sphere_ref_def initialize_def grid_mesh_def mesh_at_def)

lemma all_tracked_same:
  assumes "all_tracked c" "entities c' = entities c" "\<And>a. sphere_ref c' a \<Longrightarrow> sphere_ref c a"
  shows "all_tracked c'"
  using assms unfolding all_tracked_def by metis

lemma all_tracked_createEntity:
  assumes "all_tracked c" "map_of (entities c) (entity_id e) = None"
  shows "all_tracked (fst (createEntity e c))"
  unfolding all_tracked_def
proof (intro allI impI)
  fix a
  assume "sphere_ref (fst (createEntity e c)) a"
  then have "sphere_ref c a \<or> a = length (scene_meshes c)"
    by (simp add: sphere_ref_createEntity)
  moreover have "entities (fst (createEntity e c)) = entities c @ [(entity_id e, length (scene_meshes c))]"
    using assms(2) by (simp add: update_absent)
  ultimately show "a \<in> snd ` set (entities (fst (createEntity e c)))"
    using assms(1) unfolding all_tracked_def by auto
qed

lemma sphere_ref_setEntity_Some:
  "map_of (entities c) (entity_id e) = Some b \<Longrightarrow> sphere_ref (setEntity e c) a = sphere_ref c a"
  by (simp add: setEntity_Some sphere_ref_update_mesh)

lemma all_tracked_setEntity:
  assumes "all_tracked c"
  shows "all_tracked (setEntity e c)"
proof (cases "map_of (entities c) (entity_id e)")
  case None
  have "all_tracked (fst (createEntity e c))"
    using assms None by (rule all_tracked_createEntity)
  then show ?thesis
    using None by (simp add: setEntity_None all_tracked_def sphere_ref_update_mesh)
next
  case (Some b)
  show ?thesis
    by (rule all_tracked_same [OF assms])
       (simp_all add: Some setEntity_entities sphere_ref_setEntity_Some)
qed

lemma sphere_ref_hideAllEntities: "sphere_ref (hideAllEntities c) a = sphere_ref c a"
  by (simp add: sphere_ref_def mesh_at_hideAllEntities)

lemma all_tracked_exec:
  assumes "all_tracked c" "creates_fresh [call] c"
  shows "all_tracked (exec call c)"
proof (cases call)
  case (CreateEntity e)
  with assms show ?thesis by (simp add: all_tracked_createEntity)
next
  case (SetEntity e)
  with assms show ?thesis by (simp add: all_tracked_setEntity)
next
  case HideAllEntities
  with assms(1) show ?thesis
    by (simp add: all_tracked_def sphere_ref_hideAllEntities)
next
  case (MarkEntityAsSelected ident)
  with assms(1) show ?thesis
    by (simp add: all_tracked_def sphere_ref_markEntityAsSelected)
next
  case (OnEntityHovered ident)
  with assms(1) show ?thesis
    by (simp add: all_tracked_def sphere_ref_onEntityHovered)
next
  case OnEntityStopHovered
  with assms(1) show ?thesis
    by (simp add: all_tracked_def sphere_ref_onEntityStopHovered)
next
  case (PointerDown p)
  with assms(1) show ?thesis by simp
next
  case (PointerMove p)
  with assms(1) show ?thesis
    by (simp add: all_tracked_def onPointerMove_def sphere_ref_onEntityHovered
        sphere_ref_onEntityStopHovered split: picking_info.splits number.splits)
qed

lemma all_tracked_fold_exec:
  "all_tracked c \<Longrightarrow> creates_fresh calls c \<Longrightarrow> all_tracked (fold exec calls c)"
proof (induction calls arbitrary: c)
  case Nil
  then show ?case by simp
next
  case (Cons call calls)
  have "all_tracked (exec call c)"
    using Cons.prems by (simp add: all_tracked_exec)
  with Cons show ?case by simp
qed

text \<open>The spheres of the scene and the entries of the entity map are equally many.\<close>

lemma spheres_counted:
  assumes "well_formed c" "all_tracked c"
  shows "length (filter isPickable (scene_meshes c)) = length (entities c)"
proof -
  have "{i. i < length (scene_meshes c) \<and> isPickable (scene_meshes c ! i)} = set (map snd (entities c))"
  proof (intro set_eqI iffI)
    fix a
    assume "a \<in> {i. i < length (scene_meshes c) \<and> isPickable (scene_meshes c ! i)}"
    then have "sphere_ref c a" by (simp add: sphere_ref_def mesh_at_def)
    with assms(2) show "a \<in> set (map snd (entities c))"
      unfolding all_tracked_def by simp
  next
    fix a
    assume "a \<in> set (map snd (entities c))"
    then obtain k where "(k, a) \<in> set (entities c)" by auto
    with assms(1) have "sphere_ref c a"
      unfolding well_formed_def by blast
    then show "a \<in> {i. i < length (scene_meshes c) \<and> isPickable (scene_meshes c ! i)}"
      by (simp add: sphere_ref_def mesh_at_def)
  qed
  moreover have "distinct (map snd (entities c))"
    using assms(1) by (simp add: well_formed_def)
  then have "card (set (map snd (entities c))) = length (map snd (entities c))"
    by (rule distinct_card)
  ultimately show ?thesis
    by (simp add: length_filter_conv_card)
qed

subsection \<open>The selected and the hover material mark their meshes\<close>

lemma material_after_select:
  assumes "map_of (entities c) ident = Some a"
    and "a < length (scene_meshes c)" "b < length (scene_meshes c)"
  shows "material (mesh_at (markEntityAsSelected ident c) b) =
           (if b = a then SelectedMaterial
            else if selectedEntity c = Some b then EntityMaterial else material (mesh_at c b))"
  using assms(2,3) by (simp add: mesh_at_markEntityAsSelected [OF assms(1)])

lemma material_after_hover:
  assumes "materials_ok c" "map_of (entities c) ident = Some a"
    and "a < length (scene_meshes c)" "sphere_ref c b"
  shows "material (mesh_at (onEntityHovered ident c) b) =
           (if b = a then HoveredMaterial
            else if selectedEntity c = Some b then SelectedMaterial else EntityMaterial)"
  using assms(3) restored_material [OF assms(1,4)]
  by (simp add: mesh_at_onEntityHovered [OF assms(2)])

lemma material_after_stop:
  assumes "materials_ok c" "sphere_ref c b"
  shows "material (mesh_at (onEntityStopHovered c) b) =
           (if selectedEntity c = Some b then SelectedMaterial else EntityMaterial)"
  using restored_material [OF assms] by (simp add: mesh_at_onEntityStopHovered)

lemma selection_markedD:
  "selection_marked c \<Longrightarrow> sphere_ref c a \<Longrightarrow>
     (material (mesh_at c a) = SelectedMaterial \<longrightarrow> selectedEntity c = Some a) \<and>
     (selectedEntity c = Some a \<longrightarrow> material (mesh_at c a) \<noteq> EntityMaterial)"
  unfolding selection_marked_def by blast

lemma selection_markedI:
  assumes "\<And>a. sphere_ref c a \<Longrightarrow>
     (material (mesh_at c a) = SelectedMaterial \<longrightarrow> selectedEntity c = Some a) \<and>
     (selectedEntity c = Some a \<longrightarrow> material (mesh_at c a) \<noteq> EntityMaterial)"
  shows "selection_marked c"
  unfolding selection_marked_def using assms by blast

lemma hover_markedD:
  "hover_marked c \<Longrightarrow> sphere_ref c a \<Longrightarrow> hoveredEntity c = Some a \<Longrightarrow>
     material (mesh_at c a) \<noteq> EntityMaterial"
  unfolding hover_marked_def by blast

lemma hover_markedI:
  assumes "\<And>a. sphere_ref c a \<Longrightarrow> hoveredEntity c = Some a \<Longrightarrow>
     material (mesh_at c a) \<noteq> EntityMaterial"
  shows "hover_marked c"
  unfolding hover_marked_def using assms by blast

lemma marked_initialize: "selection_marked initialize" "hover_marked initialize"
  by (auto simp: selection_marked_def hover_marked_def sphere_ref_def initialize_def
      grid_mesh_def mesh_at_def)

text \<open>Operations that keep the materials of the spheres and the back-references.\<close>

lemma selection_marked_same:
  assumes ok: "selection_marked c"
    and ref: "\<And>a. sphere_ref c' a \<Longrightarrow> sphere_ref c a"
    and mat: "\<And>a. sphere_ref c' a \<Longrightarrow> material (mesh_at c' a) = material (mesh_at c a)"
    and sel: "selectedEntity c' = selectedEntity c"
  shows "selection_marked c'"
proof (rule selection_markedI)
  fix a
  assume a: "sphere_ref c' a"
  show "(material (mesh_at c' a) = SelectedMaterial \<longrightarrow> selectedEntity c' = Some a) \<and>
     (selectedEntity c' = Some a \<longrightarrow> material (mesh_at c' a) \<noteq> EntityMaterial)"
    unfolding mat [OF a] sel using selection_markedD [OF ok ref [OF a]] by blast
qed

lemma hover_marked_same:
  assumes ok: "hover_marked c"
    and ref: "\<And>a. sphere_ref c' a \<Longrightarrow> sphere_ref c a"
    and mat: "\<And>a. sphere_ref c' a \<Longrightarrow> material (mesh_at c' a) = material (mesh_at c a)"
    and hov: "hoveredEntity c' = hoveredEntity c"
  shows "hover_marked c'"
proof (rule hover_markedI)
  fix a
  assume a: "sphere_ref c' a" and h: "hoveredEntity c' = Some a"
  from h have "hoveredEntity c = Some a" unfolding hov .
  from hover_markedD [OF ok ref [OF a] this]
  show "material (mesh_at c' a) \<noteq> EntityMaterial"
    unfolding mat [OF a] .
qed

lemma material_hideAllEntities: "material (mesh_at (hideAllEntities c) a) = material (mesh_at c a)"
  by (simp add: mesh_at_hideAllEntities)

lemma marked_hideAllEntities:
  "selection_marked c \<Longrightarrow> selection_marked (hideAllEntities c)"
  "hover_marked c \<Longrightarrow> hover_marked (hideAllEntities c)"
proof -
  show "selection_marked c \<Longrightarrow> selection_marked (hideAllEntities c)"
    by (erule selection_marked_same)
       (simp_all add: sphere_ref_hideAllEntities material_hideAllEntities)
  show "hover_marked c \<Longrightarrow> hover_marked (hideAllEntities c)"
    by (erule hover_marked_same)
       (simp_all add: sphere_ref_hideAllEntities material_hideAllEntities)
qed

text \<open>A new sphere shows the default material and is neither selected nor hovered.\<close>

lemma marked_createEntity:
  assumes wf: "well_formed c"
  shows "selection_marked c \<Longrightarrow> selection_marked (fst (createEntity e c))"
    and "hover_marked c \<Longrightarrow> hover_marked (fst (createEntity e c))"
proof -
  let ?c' = "fst (createEntity e c)"
  let ?n = "length (scene_meshes c)"
  have "\<not> sphere_ref c ?n"
    by (simp add: sphere_ref_def)
  then have nsel: "selectedEntity c \<noteq> Some ?n" and nhov: "hoveredEntity c \<noteq> Some ?n"
    using wf unfolding well_formed_def by blast+
  have new: "material (mesh_at ?c' ?n) = EntityMaterial"
    by simp
  have old: "sphere_ref c a \<and> material (mesh_at ?c' a) = material (mesh_at c a)"
    if "sphere_ref ?c' a" "a \<noteq> ?n" for a
  proof -
    from that have r: "sphere_ref c a" by (simp add: sphere_ref_createEntity)
    then have "a < ?n" by (simp add: sphere_ref_def)
    then have "material (mesh_at ?c' a) = material (mesh_at c a)" by simp
    with r show ?thesis by blast
  qed
  show "selection_marked ?c'" if ok: "selection_marked c"
  proof (rule selection_markedI)
    fix a
    assume a: "sphere_ref ?c' a"
    have sel: "selectedEntity ?c' = selectedEntity c" by simp
    show "(material (mesh_at ?c' a) = SelectedMaterial \<longrightarrow> selectedEntity ?c' = Some a) \<and>
       (selectedEntity ?c' = Some a \<longrightarrow> material (mesh_at ?c' a) \<noteq> EntityMaterial)"
    proof (cases "a = ?n")
      case True
      show ?thesis unfolding sel True new using nsel by simp
    next
      case False
      from old [OF a False] have r: "sphere_ref c a"
        and m: "material (mesh_at ?c' a) = material (mesh_at c a)" by blast+
      show ?thesis unfolding sel m using selection_markedD [OF ok r] by blast
    qed
  qed
  show "hover_marked ?c'" if ok: "hover_marked c"
  proof (rule hover_markedI)
    fix a
    assume a: "sphere_ref ?c' a" and h: "hoveredEntity ?c' = Some a"
    from h have h': "hoveredEntity c = Some a" by simp
    with nhov have "a \<noteq> ?n" by blast
    from old [OF a this] have r: "sphere_ref c a"
      and m: "material (mesh_at ?c' a) = material (mesh_at c a)" by blast+
    from hover_markedD [OF ok r h'] show "material (mesh_at ?c' a) \<noteq> EntityMaterial"
      unfolding m .
  qed
qed

lemma marked_update_mesh:
  assumes pick: "\<And>m. isPickable (f m) = isPickable m" and mat: "\<And>m. material (f m) = material m"
  shows "selection_marked c \<Longrightarrow> selection_marked (update_mesh b f c)"
    and "hover_marked c \<Longrightarrow> hover_marked (update_mesh b f c)"
proof -
  have r: "sphere_ref (update_mesh b f c) a \<Longrightarrow> sphere_ref c a" for a
    by (simp add: sphere_ref_update_mesh pick)
  have m: "material (mesh_at (update_mesh b f c) a) = material (mesh_at c a)" for a
    by (simp add: mesh_at_update_mesh mat)
  show "selection_marked c \<Longrightarrow> selection_marked (update_mesh b f c)"
    by (erule selection_marked_same) (simp_all add: r m)
  show "hover_marked c \<Longrightarrow> hover_marked (update_mesh b f c)"
    by (erule hover_marked_same) (simp_all add: r m)
qed

lemma marked_setEntity:
  assumes wf: "well_formed c"
  shows "selection_marked c \<Longrightarrow> selection_marked (setEntity e c)"
    and "hover_marked c \<Longrightarrow> hover_marked (setEntity e c)"
proof -
  show "selection_marked c \<Longrightarrow> selection_marked (setEntity e c)"
    by (cases "map_of (entities c) (entity_id e)")
       (simp_all add: setEntity_Some setEntity_None marked_update_mesh marked_createEntity [OF wf])
  show "hover_marked c \<Longrightarrow> hover_marked (setEntity e c)"
    by (cases "map_of (entities c) (entity_id e)")
       (simp_all add: setEntity_Some setEntity_None marked_update_mesh marked_createEntity [OF wf])
qed

lemma selection_marked_markEntityAsSelected:
  assumes ok: "selection_marked c" and wf: "well_formed c"
  shows "selection_marked (markEntityAsSelected ident c)"
proof (cases "map_of (entities c) ident")
  case None
  with ok show ?thesis by (simp add: markEntityAsSelected_None)
next
  case (Some a)
  then have "sphere_ref c a" using wf map_of_entities_ref by blast
  then have lta: "a < length (scene_meshes c)" by (simp add: sphere_ref_def)
  let ?c' = "markEntityAsSelected ident c"
  have sel: "selectedEntity ?c' = Some a"
    using Some by (simp add: markEntityAsSelected_selected)
  show ?thesis
  proof (rule selection_markedI)
    fix b
    assume "sphere_ref ?c' b"
    then have b: "sphere_ref c b" by (simp add: sphere_ref_markEntityAsSelected)
    then have ltb: "b < length (scene_meshes c)" by (simp add: sphere_ref_def)
    note m = material_after_select [OF Some lta ltb]
    show "(material (mesh_at ?c' b) = SelectedMaterial \<longrightarrow> selectedEntity ?c' = Some b) \<and>
       (selectedEntity ?c' = Some b \<longrightarrow> material (mesh_at ?c' b) \<noteq> EntityMaterial)"
    proof (cases "b = a")
      case True
      then show ?thesis unfolding m sel by simp
    next
      case False
      then have ne: "Some a \<noteq> Some b" by simp
      show ?thesis
      proof (cases "selectedEntity c = Some b")
        case True
        then show ?thesis unfolding m sel using False by simp
      next
        case nsel: False
        have m': "material (mesh_at ?c' b) = material (mesh_at c b)"
          unfolding m using False nsel by simp
        show ?thesis unfolding m' sel using selection_markedD [OF ok b] nsel ne by blast
      qed
    qed
  qed
qed

lemma hover_marked_markEntityAsSelected:
  assumes ok: "hover_marked c" and wf: "well_formed c"
    and clean: "\<not> moves_selection_off_hovered ident c"
  shows "hover_marked (markEntityAsSelected ident c)"
proof (cases "map_of (entities c) ident")
  case None
  with ok show ?thesis by (simp add: markEntityAsSelected_None)
next
  case (Some a)
  then have "sphere_ref c a" using wf map_of_entities_ref by blast
  then have lta: "a < length (scene_meshes c)" by (simp add: sphere_ref_def)
  let ?c' = "markEntityAsSelected ident c"
  show ?thesis
  proof (rule hover_markedI)
    fix b
    assume "sphere_ref ?c' b" and "hoveredEntity ?c' = Some b"
    then have b: "sphere_ref c b" and h: "hoveredEntity c = Some b"
      by (simp_all add: sphere_ref_markEntityAsSelected)
    then have ltb: "b < length (scene_meshes c)" by (simp add: sphere_ref_def)
    note m = material_after_select [OF Some lta ltb]
    show "material (mesh_at ?c' b) \<noteq> EntityMaterial"
    proof (cases "b = a")
      case True
      then show ?thesis unfolding m by simp
    next
      case False
      have nsel: "selectedEntity c \<noteq> Some b"
      proof
        assume "selectedEntity c = Some b"
        with h False Some have "moves_selection_off_hovered ident c"
          by (simp add: moves_selection_off_hovered_def)
        with clean show False by blast
      qed
      have "material (mesh_at ?c' b) = material (mesh_at c b)"
        unfolding m using False nsel by simp
      with hover_markedD [OF ok b h] show ?thesis by simp
    qed
  qed
qed

lemma marked_onEntityHovered:
  assumes mok: "materials_ok c" and wf: "well_formed c"
  shows "selection_marked c \<Longrightarrow> selection_marked (onEntityHovered ident c)"
    and "hover_marked c \<Longrightarrow> hover_marked (onEntityHovered ident c)"
proof -
  let ?c' = "onEntityHovered ident c"
  have sel: "selectedEntity ?c' = selectedEntity c" by simp
  have main: "selection_marked ?c' \<and> hover_marked ?c'"
    if Some: "map_of (entities c) ident = Some a" for a
  proof -
    have "sphere_ref c a" using wf Some map_of_entities_ref by blast
    then have lta: "a < length (scene_meshes c)" by (simp add: sphere_ref_def)
    have hov: "hoveredEntity ?c' = Some a"
      using Some by (simp add: onEntityHovered_hovered)
    have m: "material (mesh_at ?c' b) =
        (if b = a then HoveredMaterial
         else if selectedEntity c = Some b then SelectedMaterial else EntityMaterial)"
      if "sphere_ref ?c' b" for b
    proof -
      from that have "sphere_ref c b" by (simp add: sphere_ref_onEntityHovered)
      with mok Some lta show ?thesis by (rule material_after_hover)
    qed
    have "selection_marked ?c'"
    proof (rule selection_markedI)
      fix b
      assume b: "sphere_ref ?c' b"
      show "(material (mesh_at ?c' b) = SelectedMaterial \<longrightarrow> selectedEntity ?c' = Some b) \<and>
         (selectedEntity ?c' = Some b \<longrightarrow> material (mesh_at ?c' b) \<noteq> EntityMaterial)"
        unfolding m [OF b] sel by (cases "b = a"; cases "selectedEntity c = Some b"; simp)
    qed
    moreover have "hover_marked ?c'"
    proof (rule hover_markedI)
      fix b
      assume b: "sphere_ref ?c' b" and "hoveredEntity ?c' = Some b"
      with hov have "b = a" by simp
      then show "material (mesh_at ?c' b) \<noteq> EntityMaterial"
        unfolding m [OF b] by simp
    qed
    ultimately show ?thesis by blast
  qed
  show "selection_marked c \<Longrightarrow> selection_marked ?c'"
    using main by (cases "map_of (entities c) ident") (simp_all add: onEntityHovered_None)
  show "hover_marked c \<Longrightarrow> hover_marked ?c'"
    using main by (cases "map_of (entities c) ident") (simp_all add: onEntityHovered_None)
qed

lemma marked_onEntityStopHovered:
  assumes mok: "materials_ok c"
  shows "selection_marked (onEntityStopHovered c)"
    and "hover_marked (onEntityStopHovered c)"
proof -
  let ?c' = "onEntityStopHovered c"
  show "selection_marked ?c'"
  proof (rule selection_markedI)
    fix b
    assume "sphere_ref ?c' b"
    then have b: "sphere_ref c b" by (simp add: sphere_ref_onEntityStopHovered)
    have sel: "selectedEntity ?c' = selectedEntity c" by simp
    show "(material (mesh_at ?c' b) = SelectedMaterial \<longrightarrow> selectedEntity ?c' = Some b) \<and>
       (selectedEntity ?c' = Some b \<longrightarrow> material (mesh_at ?c' b) \<noteq> EntityMaterial)"
      unfolding material_after_stop [OF mok b] sel
      by (cases "selectedEntity c = Some b"; simp)
  qed
  show "hover_marked ?c'"
    by (rule hover_markedI) simp
qed

lemma marked_onPointerMove:
  assumes mok: "materials_ok c" and wf: "well_formed c"
  shows "selection_marked c \<Longrightarrow> selection_marked (onPointerMove c p)"
    and "hover_marked c \<Longrightarrow> hover_marked (onPointerMove c p)"
  by (simp_all add: onPointerMove_def marked_onEntityHovered [OF mok wf]
      marked_onEntityStopHovered [OF mok] split: picking_info.splits number.splits)

lemma selection_marked_exec:
  assumes "selection_marked c" "materials_ok c" "well_formed c"
  shows "selection_marked (exec call c)"
  using assms
  by (cases call)
     (simp_all add: marked_createEntity marked_setEntity marked_hideAllEntities
        selection_marked_markEntityAsSelected marked_onEntityHovered
        marked_onEntityStopHovered marked_onPointerMove)

lemma hover_marked_exec:
  assumes "hover_marked c" "materials_ok c" "well_formed c"
    and "selection_leaves_unhovered [call] c"
  shows "hover_marked (exec call c)"
  using assms
  by (cases call)
     (simp_all add: marked_createEntity marked_setEntity marked_hideAllEntities
        hover_marked_markEntityAsSelected marked_onEntityHovered
        marked_onEntityStopHovered marked_onPointerMove)

lemma selection_marked_fold_exec:
  "selection_marked c \<Longrightarrow> materials_ok c \<Longrightarrow> well_formed c \<Longrightarrow>
   selection_marked (fold exec calls c)"
  by (induction calls arbitrary: c)
     (simp_all add: selection_marked_exec materials_ok_exec well_formed_exec)

lemma hover_marked_fold_exec:
  "hover_marked c \<Longrightarrow> materials_ok c \<Longrightarrow> well_formed c \<Longrightarrow>
   selection_leaves_unhovered calls c \<Longrightarrow> hover_marked (fold exec calls c)"
proof (induction calls arbitrary: c)
  case Nil
  then show ?case by simp
next
  case (Cons call calls)
  have "selection_leaves_unhovered [call] c"
    using Cons.prems(4) by simp
  with Cons.prems have "hover_marked (exec call c)"
    by (simp add: hover_marked_exec)
  moreover have "materials_ok (exec call c)" "well_formed (exec call c)"
    using Cons.prems by (simp_all add: materials_ok_exec well_formed_exec)
  moreover have "selection_leaves_unhovered calls (exec call c)"
    using Cons.prems(4) by simp
  ultimately show ?case
    using Cons.IH by simp
qed

lemma selection_marked_run: "selection_marked (run calls initialize)"
  by (simp add: run_def selection_marked_fold_exec marked_initialize materials_ok_initialize
      well_formed_initialize)

lemma hover_marked_run:
  "selection_leaves_unhovered calls initialize \<Longrightarrow> hover_marked (run calls initialize)"
  by (simp add: run_def hover_marked_fold_exec marked_initialize materials_ok_initialize
      well_formed_initialize)

subsection \<open>Evaluating the controller on concrete calls\<close>

lemmas controller_defs =
  run_def initialize_def grid_mesh_def createEntity_def setEntity_def hideAllEntities_def
  markEntityAsSelected_def restore_hovered_def onEntityHovered_def onEntityStopHovered_def
  onPointerDown_def onPointerMove_def possible_pick_def pointerPredicate_def
  update_mesh_def mesh_at_def getEntityPosition_def entity_at_def Let_def

lemma onPointerMove_entities [simp]: "entities (onPointerMove c p) = entities c"
  by (simp add: onPointerMove_def split: picking_info.splits number.splits)

lemma keys_exec:
  "fst ` set (entities (exec call c)) = fst ` set (entities c) \<union> set (ids_passed [call])"
proof (cases call)
  case (SetEntity e)
  show ?thesis
  proof (cases "map_of (entities c) (entity_id e)")
    case None
    with SetEntity show ?thesis by (simp add: setEntity_entities dom_update)
  next
    case (Some a)
    then have "entity_id e \<in> fst ` set (entities c)"
      by (metis domI dom_map_of_conv_image_fst)
    with SetEntity Some show ?thesis by (auto simp: setEntity_entities)
  qed
qed (auto simp: dom_update)

lemma keys_fold_exec:
  "fst ` set (entities (fold exec calls c)) = fst ` set (entities c) \<union> set (ids_passed calls)"
proof (induction calls arbitrary: c)
  case Nil
  show ?case by simp
next
  case (Cons call calls)
  have "set (ids_passed (call # calls)) = set (ids_passed [call]) \<union> set (ids_passed calls)"
    by (cases call) auto
  then show ?case
    by (simp add: Cons.IH keys_exec Un_assoc del: ids_passed.simps)
qed

lemma keys_run: "fst ` set (entities (run calls initialize)) = set (ids_passed calls)"
  by (simp add: run_def keys_fold_exec) (simp add: initialize_def)

text \<open>
  Why \<open>hover_marked\<close> needs its condition: when the selection moves away from a mesh
  that is selected and hovered, \<open>markEntityAsSelected\<close> resets that mesh to the default
  material although it stays the hovered mesh.
\<close>

lemma selection_moved_off_hovered_mesh:
  "\<not> selection_leaves_unhovered [SetEntity (entity_at 5 0), SetEntity (entity_at 6 1),
        MarkEntityAsSelected 5, OnEntityHovered 5, MarkEntityAsSelected 6] initialize \<and>
   hoveredEntity (run [SetEntity (entity_at 5 0), SetEntity (entity_at 6 1),
        MarkEntityAsSelected 5, OnEntityHovered 5, MarkEntityAsSelected 6] initialize) = Some 1 \<and>
   selectedEntity (run [SetEntity (entity_at 5 0), SetEntity (entity_at 6 1),
        MarkEntityAsSelected 5, OnEntityHovered 5, MarkEntityAsSelected 6] initialize) = Some 2 \<and>
   material (mesh_at (run [SetEntity (entity_at 5 0), SetEntity (entity_at 6 1),
        MarkEntityAsSelected 5, OnEntityHovered 5, MarkEntityAsSelected 6] initialize) 1) = EntityMaterial"
  by (simp add: controller_defs moves_selection_off_hovered_def)

section \<open>The claims\<close>

text \<open>
  C5. Unknown-id no-op: for an entity id that has no mesh in the entity map,
  \<open>markEntityAsSelected\<close> and \<open>onEntityHovered\<close> return the controller state as it
  was: no material, no back-reference and nothing else changes (the operations have no
  failing branch). An id that no call has passed to \<open>setEntity\<close> or \<open>createEntity\<close>
  has no mesh in the entity map of the state those calls reach.
\<close>

theorem unknown_id_noop:
  "(map_of (entities c) ident = None \<longrightarrow>
      markEntityAsSelected ident c = c \<and> onEntityHovered ident c = c) \<and>
   (ident \<notin> set (ids_passed calls) \<longrightarrow>
      map_of (entities (run calls initialize)) ident = None \<and>
      markEntityAsSelected ident (run calls initialize) = run calls initialize \<and>
      onEntityHovered ident (run calls initialize) = run calls initialize)"
proof -
  have "map_of (entities (run calls initialize)) ident = None"
    if "ident \<notin> set (ids_passed calls)"
    using that keys_run [of calls] by (simp add: map_of_eq_None_iff)
  then show ?thesis
    by (simp add: markEntityAsSelected_None onEntityHovered_None)
qed

theorem unknown_id_noop_witness:
  "(2::int) \<notin> set (ids_passed [SetEntity \<lparr>entity_id = 1, recorded_position = Vector3 0 0 0\<rparr>,
                                   MarkEntityAsSelected 1, OnEntityHovered 1]) \<and>
   map_of (entities (run [SetEntity \<lparr>entity_id = 1, recorded_position = Vector3 0 0 0\<rparr>,
                         MarkEntityAsSelected 1, OnEntityHovered 1] initialize)) 2 = None \<and>
   markEntityAsSelected 2 (run [SetEntity \<lparr>entity_id = 1, recorded_position = Vector3 0 0 0\<rparr>,
                         MarkEntityAsSelected 1, OnEntityHovered 1] initialize)
     = run [SetEntity \<lparr>entity_id = 1, recorded_position = Vector3 0 0 0\<rparr>,
                         MarkEntityAsSelected 1, OnEntityHovered 1] initialize"
  using unknown_id_noop [of _ 2 "[SetEntity \<lparr>entity_id = 1, recorded_position = Vector3 0 0 0\<rparr>,
                         MarkEntityAsSelected 1, OnEntityHovered 1]"]
  by simp

text \<open>
  C8. \<open>setEntity\<close> is idempotent: a second call with the same entity leaves the whole
  controller state (positions, enabled flags, entity map and everything else) as the
  first call left it.
\<close>

theorem setEntity_idempotent: "setEntity e (setEntity e c) = setEntity e c"
proof (cases "map_of (entities c) (entity_id e)")
  case None
  let ?n = "length (scene_meshes c)"
  have "map_of (entities (setEntity e c)) (entity_id e) = Some ?n"
    using None by (simp add: setEntity_entities update_conv')
  then have "setEntity e (setEntity e c) =
      update_mesh ?n (\<lambda>m. m\<lparr>enabled := True\<rparr>)
        (update_mesh ?n (\<lambda>m. m\<lparr>position := getEntityPosition e\<rparr>) (setEntity e c))"
    by (rule setEntity_Some)
  also have "\<dots> = setEntity e c"
    using None by (simp add: setEntity_None update_mesh_def createEntity_def Let_def)
  finally show ?thesis .
next
  case (Some a)
  have "map_of (entities (setEntity e c)) (entity_id e) = Some a"
    using Some by (simp add: setEntity_entities)
  then have "setEntity e (setEntity e c) =
      update_mesh a (\<lambda>m. m\<lparr>enabled := True\<rparr>)
        (update_mesh a (\<lambda>m. m\<lparr>position := getEntityPosition e\<rparr>) (setEntity e c))"
    by (rule setEntity_Some)
  also have "\<dots> = setEntity e c"
  proof (cases "a < length (scene_meshes c)")
    case True
    then show ?thesis using Some by (simp add: setEntity_Some update_mesh_def)
  next
    case False
    then show ?thesis using Some by (simp add: setEntity_Some update_mesh_def list_update_beyond)
  qed
  finally show ?thesis .
qed


text \<open>
  C3. Stop-hover selection precedence: in every reachable state in which one mesh is
  both the selected and the hovered mesh, \<open>onEntityStopHovered\<close> gives that mesh the
  selected material (so not the default material) and clears the hover back-reference.
\<close>

theorem stop_hover_selection_precedence:
  assumes "c = run calls initialize"
    and "hoveredEntity c = Some a"
    and "selectedEntity c = Some a"
  shows "material (mesh_at (onEntityStopHovered c) a) = SelectedMaterial \<and>
         material (mesh_at (onEntityStopHovered c) a) \<noteq> EntityMaterial \<and>
         hoveredEntity (onEntityStopHovered c) = None"
proof -
  have "well_formed c"
    using assms(1) by (simp add: well_formed_run)
  with assms(2) have "sphere_ref c a"
    unfolding well_formed_def by blast
  then have "a < length (scene_meshes c)"
    by (simp add: sphere_ref_def)
  then have "material (mesh_at (onEntityStopHovered c) a) = SelectedMaterial"
    using assms(2,3) by (simp add: mesh_at_onEntityStopHovered mesh_at_restore_hovered)
  then show ?thesis by simp
qed

theorem stop_hover_selection_precedence_witness:
  "hoveredEntity (run [SetEntity (entity_at 5 0), MarkEntityAsSelected 5, OnEntityHovered 5] initialize) = Some 1 \<and>
   selectedEntity (run [SetEntity (entity_at 5 0), MarkEntityAsSelected 5, OnEntityHovered 5] initialize) = Some 1 \<and>
   material (mesh_at (run [SetEntity (entity_at 5 0), MarkEntityAsSelected 5, OnEntityHovered 5] initialize) 1)
     = HoveredMaterial \<and>
   material (mesh_at (onEntityStopHovered
      (run [SetEntity (entity_at 5 0), MarkEntityAsSelected 5, OnEntityHovered 5] initialize)) 1)
     = SelectedMaterial \<and>
   hoveredEntity (onEntityStopHovered
      (run [SetEntity (entity_at 5 0), MarkEntityAsSelected 5, OnEntityHovered 5] initialize)) = None"
proof -
  let ?c = "run [SetEntity (entity_at 5 0), MarkEntityAsSelected 5, OnEntityHovered 5] initialize"
  have h: "hoveredEntity ?c = Some 1" by (simp add: controller_defs)
  have s: "selectedEntity ?c = Some 1" by (simp add: controller_defs)
  have m: "material (mesh_at ?c 1) = HoveredMaterial" by (simp add: controller_defs)
  from stop_hover_selection_precedence [OF refl h s] h s m show ?thesis by simp
qed


text \<open>
  C1. Material-state invariant. As stated the claim does not hold: a mesh that is
  selected and then hovered is both the selected and the hovered mesh and shows the
  hover material, not the selected one.
\<close>

theorem selected_and_hovered_counterexample:
  "map_of (entities (run [SetEntity (entity_at 5 0), MarkEntityAsSelected 5, OnEntityHovered 5] initialize)) 5
     = Some 1 \<and>
   selectedEntity (run [SetEntity (entity_at 5 0), MarkEntityAsSelected 5, OnEntityHovered 5] initialize) = Some 1 \<and>
   hoveredEntity (run [SetEntity (entity_at 5 0), MarkEntityAsSelected 5, OnEntityHovered 5] initialize) = Some 1 \<and>
   material (mesh_at (run [SetEntity (entity_at 5 0), MarkEntityAsSelected 5, OnEntityHovered 5] initialize) 1)
     \<noteq> SelectedMaterial"
  by (simp add: controller_defs)

text \<open>
  C1 as amended. In every reachable state every mesh of the entity map shows exactly one
  of the default, selected and hover materials, and the back-references determine it:
  a mesh that is neither selected nor hovered shows the default material; the selected
  mesh shows the selected material while it is not the hovered mesh; a mesh that is
  both selected and hovered shows the hover or the selected material, whichever of
  \<open>onEntityHovered\<close> and \<open>markEntityAsSelected\<close> was applied to it last; the selected
  material is on no mesh but the selected one and the hover material on no mesh but the
  hovered one; and the hovered mesh shows the hover material while it is not the
  selected mesh, as long as no call of \<open>markEntityAsSelected\<close> has moved the
  selection away from a mesh that was selected and hovered at that moment.
\<close>

theorem material_state_invariant:
  assumes "c = run calls initialize"
    and "map_of (entities c) ident = Some a"
  shows "material (mesh_at c a) \<in> {EntityMaterial, SelectedMaterial, HoveredMaterial} \<and>
         (selectedEntity c \<noteq> Some a \<and> hoveredEntity c \<noteq> Some a \<longrightarrow>
            material (mesh_at c a) = EntityMaterial) \<and>
         (selectedEntity c = Some a \<and> hoveredEntity c \<noteq> Some a \<longrightarrow>
            material (mesh_at c a) = SelectedMaterial) \<and>
         (selectedEntity c = Some a \<and> hoveredEntity c = Some a \<longrightarrow>
            material (mesh_at c a) \<in> {SelectedMaterial, HoveredMaterial}) \<and>
         (material (mesh_at c a) = SelectedMaterial \<longrightarrow> selectedEntity c = Some a) \<and>
         (material (mesh_at c a) = HoveredMaterial \<longrightarrow> hoveredEntity c = Some a) \<and>
         (selection_leaves_unhovered calls initialize \<and>
          hoveredEntity c = Some a \<and> selectedEntity c \<noteq> Some a \<longrightarrow>
            material (mesh_at c a) = HoveredMaterial) \<and>
         material (mesh_at (onEntityHovered ident c) a) = HoveredMaterial \<and>
         material (mesh_at (markEntityAsSelected ident c) a) = SelectedMaterial"
proof -
  have wf: "well_formed c" and ok: "materials_ok c" and sm: "selection_marked c"
    using assms(1) by (simp_all add: well_formed_run materials_ok_run selection_marked_run)
  have a: "sphere_ref c a"
    using wf assms(2) map_of_entities_ref by blast
  then have lt: "a < length (scene_meshes c)"
    by (simp add: sphere_ref_def)
  note inv = materials_okD [OF ok a]
  note sel_inv = selection_markedD [OF sm a]
  have one: "material (mesh_at c a) \<in> {EntityMaterial, SelectedMaterial, HoveredMaterial}"
    using inv by (cases "material (mesh_at c a)") simp_all
  have both: "material (mesh_at c a) \<in> {SelectedMaterial, HoveredMaterial}"
    if "selectedEntity c = Some a"
  proof -
    from that sel_inv have "material (mesh_at c a) \<noteq> EntityMaterial" by blast
    moreover from inv have "material (mesh_at c a) \<noteq> GroundMaterial" by blast
    ultimately show ?thesis by (cases "material (mesh_at c a)") simp_all
  qed
  have hovered: "material (mesh_at c a) = HoveredMaterial"
    if clean: "selection_leaves_unhovered calls initialize"
      and h: "hoveredEntity c = Some a" and ns: "selectedEntity c \<noteq> Some a"
  proof -
    have "hover_marked c"
      using clean unfolding assms(1) by (rule hover_marked_run)
    from hover_markedD [OF this a h] have "material (mesh_at c a) \<noteq> EntityMaterial" .
    moreover from inv have "material (mesh_at c a) \<noteq> GroundMaterial" by blast
    moreover from sel_inv ns have "material (mesh_at c a) \<noteq> SelectedMaterial" by blast
    ultimately show ?thesis by (cases "material (mesh_at c a)") simp_all
  qed
  have hov: "material (mesh_at (onEntityHovered ident c) a) = HoveredMaterial"
    using lt by (simp add: mesh_at_onEntityHovered [OF assms(2)])
  have sel: "material (mesh_at (markEntityAsSelected ident c) a) = SelectedMaterial"
    using lt by (simp add: mesh_at_markEntityAsSelected [OF assms(2)])
  from one inv both sel_inv hovered hov sel show ?thesis by blast
qed

theorem material_state_invariant_witness:
  "selection_leaves_unhovered [SetEntity (entity_at 5 0), SetEntity (entity_at 6 1), MarkEntityAsSelected 5,
                            OnEntityHovered 5, OnEntityHovered 6] initialize \<and>
   map_of (entities (run [SetEntity (entity_at 5 0), SetEntity (entity_at 6 1), MarkEntityAsSelected 5,
                            OnEntityHovered 5, OnEntityHovered 6] initialize)) 6 = Some 2 \<and>
   selectedEntity (run [SetEntity (entity_at 5 0), SetEntity (entity_at 6 1), MarkEntityAsSelected 5,
                            OnEntityHovered 5, OnEntityHovered 6] initialize) = Some 1 \<and>
   hoveredEntity (run [SetEntity (entity_at 5 0), SetEntity (entity_at 6 1), MarkEntityAsSelected 5,
                            OnEntityHovered 5, OnEntityHovered 6] initialize) = Some 2 \<and>
   material (mesh_at (run [SetEntity (entity_at 5 0), SetEntity (entity_at 6 1), MarkEntityAsSelected 5,
                            OnEntityHovered 5, OnEntityHovered 6] initialize) 2) = HoveredMaterial \<and>
   material (mesh_at (markEntityAsSelected 6 (run [SetEntity (entity_at 5 0), SetEntity (entity_at 6 1),
                            MarkEntityAsSelected 5, OnEntityHovered 5, OnEntityHovered 6] initialize)) 2)
     = SelectedMaterial"
proof -
  let ?calls = "[SetEntity (entity_at 5 0), SetEntity (entity_at 6 1), MarkEntityAsSelected 5,
                 OnEntityHovered 5, OnEntityHovered 6]"
  have clean: "selection_leaves_unhovered ?calls initialize"
    by (simp add: controller_defs moves_selection_off_hovered_def)
  have m: "map_of (entities (run ?calls initialize)) 6 = Some 2" by (simp add: controller_defs)
  have s: "selectedEntity (run ?calls initialize) = Some 1" by (simp add: controller_defs)
  have h: "hoveredEntity (run ?calls initialize) = Some 2" by (simp add: controller_defs)
  from s have ns: "selectedEntity (run ?calls initialize) \<noteq> Some 2" by simp
  from material_state_invariant [OF refl m] clean h ns
  have "material (mesh_at (run ?calls initialize) 2) = HoveredMaterial"
    and "material (mesh_at (markEntityAsSelected 6 (run ?calls initialize)) 2) = SelectedMaterial"
    by blast+
  with clean m s h show ?thesis by blast
qed

text \<open>
  C4. Hover handoff: for two distinct ids A and B of the entity map of a reachable
  state, \<open>onEntityHovered(A)\<close> followed by \<open>onEntityHovered(B)\<close> leaves the mesh of A
  with the selected material if it is the selected mesh and with the default material
  otherwise (which is the material it had before the two calls, unless it was the
  hovered mesh already), and leaves the mesh of B with the hover material; the two are
  different meshes, and in no reachable state do two meshes of the scene show the hover
  material.
\<close>

theorem hover_handoff:
  assumes "c = run calls initialize"
    and "idA \<noteq> idB"
    and "map_of (entities c) idA = Some a"
    and "map_of (entities c) idB = Some b"
  shows "a \<noteq> b \<and>
         material (mesh_at (onEntityHovered idB (onEntityHovered idA c)) a)
           = (if selectedEntity c = Some a then SelectedMaterial else EntityMaterial) \<and>
         (hoveredEntity c \<noteq> Some a \<longrightarrow>
            material (mesh_at (onEntityHovered idB (onEntityHovered idA c)) a) = material (mesh_at c a)) \<and>
         material (mesh_at (onEntityHovered idB (onEntityHovered idA c)) b) = HoveredMaterial \<and>
         material (mesh_at (onEntityHovered idA c) a) = HoveredMaterial \<and>
         material (mesh_at (onEntityHovered idA c) b) \<noteq> HoveredMaterial \<and>
         (\<forall>x y. x < length (scene_meshes c) \<and> y < length (scene_meshes c) \<and>
                material (mesh_at c x) = HoveredMaterial \<and> material (mesh_at c y) = HoveredMaterial
                \<longrightarrow> x = y)"
proof -
  let ?c1 = "onEntityHovered idA c"
  let ?c2 = "onEntityHovered idB ?c1"
  have wf: "well_formed c" and ok: "materials_ok c"
    using assms(1) by (simp_all add: well_formed_run materials_ok_run)
  have ab: "a \<noteq> b"
    using map_of_entities_inj [OF wf assms(3)] assms(2,4) by blast
  have a: "sphere_ref c a" and b: "sphere_ref c b"
    using wf assms(3,4) map_of_entities_ref by blast+
  then have lt: "a < length (scene_meshes c)" "b < length (scene_meshes c)"
    by (simp_all add: sphere_ref_def)
  have c1: "?c1 = run (calls @ [OnEntityHovered idA]) initialize"
    by (simp add: run_snoc assms(1))
  have wf1: "well_formed ?c1" and ok1: "materials_ok ?c1"
    unfolding c1 by (simp_all only: well_formed_run materials_ok_run)
  have a1: "sphere_ref ?c1 a" and b1: "sphere_ref ?c1 b"
    using a b by (simp_all add: sphere_ref_onEntityHovered)
  have m1: "map_of (entities ?c1) idB = Some b"
    using assms(4) by simp
  have h1: "hoveredEntity ?c1 = Some a"
    using assms(3) by (simp add: onEntityHovered_hovered)
  have ma1: "material (mesh_at ?c1 a) = HoveredMaterial"
    using lt by (simp add: mesh_at_onEntityHovered [OF assms(3)])
  have mb1: "material (mesh_at ?c1 b) \<noteq> HoveredMaterial"
  proof
    assume "material (mesh_at ?c1 b) = HoveredMaterial"
    with materials_okD [OF ok1 b1] have "hoveredEntity ?c1 = Some b" by blast
    with h1 ab show False by simp
  qed
  have "mesh_at ?c2 a = mesh_at (restore_hovered ?c1) a"
    using ab by (simp add: mesh_at_onEntityHovered [OF m1])
  then have ma2: "material (mesh_at ?c2 a) = (if selectedEntity c = Some a then SelectedMaterial else EntityMaterial)"
    using restored_material [OF ok1 a1] by simp
  have same: "material (mesh_at ?c2 a) = material (mesh_at c a)" if "hoveredEntity c \<noteq> Some a"
  proof (cases "selectedEntity c = Some a")
    case True
    with that materials_okD [OF ok a] have "material (mesh_at c a) = SelectedMaterial" by blast
    with True ma2 show ?thesis by simp
  next
    case False
    with that materials_okD [OF ok a] have "material (mesh_at c a) = EntityMaterial" by blast
    with False ma2 show ?thesis by simp
  qed
  have mb2: "material (mesh_at ?c2 b) = HoveredMaterial"
    using lt by (simp add: mesh_at_onEntityHovered [OF m1])
  have uniq: "x = y"
    if "x < length (scene_meshes c)" "y < length (scene_meshes c)"
       "material (mesh_at c x) = HoveredMaterial" "material (mesh_at c y) = HoveredMaterial" for x y
  proof -
    have "hoveredEntity c = Some x" "hoveredEntity c = Some y"
      using that hover_material_unique [of _ calls] unfolding assms(1) by blast+
    then show ?thesis by simp
  qed
  from ab ma2 same mb2 ma1 mb1 uniq show ?thesis by blast
qed

theorem hover_handoff_witness:
  "map_of (entities (run [SetEntity (entity_at 1 0), SetEntity (entity_at 2 1), MarkEntityAsSelected 1]
             initialize)) 1 = Some 1 \<and>
   map_of (entities (run [SetEntity (entity_at 1 0), SetEntity (entity_at 2 1), MarkEntityAsSelected 1]
             initialize)) 2 = Some 2 \<and>
   material (mesh_at (onEntityHovered 2 (onEntityHovered 1
      (run [SetEntity (entity_at 1 0), SetEntity (entity_at 2 1), MarkEntityAsSelected 1] initialize))) 1)
     = SelectedMaterial \<and>
   material (mesh_at (onEntityHovered 2 (onEntityHovered 1
      (run [SetEntity (entity_at 1 0), SetEntity (entity_at 2 1), MarkEntityAsSelected 1] initialize))) 2)
     = HoveredMaterial"
proof -
  let ?c = "run [SetEntity (entity_at 1 0), SetEntity (entity_at 2 1), MarkEntityAsSelected 1] initialize"
  have ne: "(1::int) \<noteq> 2" by simp
  have ma: "map_of (entities ?c) 1 = Some 1" by (simp add: controller_defs)
  have mb: "map_of (entities ?c) 2 = Some 2" by (simp add: controller_defs)
  have s: "selectedEntity ?c = Some 1" by (simp add: controller_defs)
  from hover_handoff [OF refl ne ma mb] ma mb s show ?thesis by simp
qed


text \<open>
  C6. Hide-then-show diffing: in every reachable state (in particular after any
  sequence of \<open>setEntity\<close> calls), \<open>hideAllEntities\<close> disables every mesh of the
  entity map; when \<open>setEntity\<close> is then called for entities whose ids are all tracked,
  the entity map is as before and a tracked mesh is enabled exactly when its id is
  among those ids.
\<close>

theorem hide_then_show:
  assumes "c = run calls initialize"
  shows "(\<forall>k a. map_of (entities (hideAllEntities c)) k = Some a \<longrightarrow>
            \<not> enabled (mesh_at (hideAllEntities c) a)) \<and>
         (entity_id ` set es \<subseteq> fst ` set (entities c) \<longrightarrow>
            entities (fold setEntity es (hideAllEntities c)) = entities c \<and>
            (\<forall>k a. map_of (entities c) k = Some a \<longrightarrow>
               (enabled (mesh_at (fold setEntity es (hideAllEntities c)) a) \<longleftrightarrow> k \<in> entity_id ` set es)))"
proof -
  have wf: "well_formed c"
    using assms by (simp add: well_formed_run)
  have hidden: "shown_exactly (hideAllEntities c) {}"
    using wf by (rule shown_exactly_hideAllEntities)
  have pass: "shown_exactly (fold setEntity es (hideAllEntities c)) (entity_id ` set es)"
    using fold_setEntity_pass [OF well_formed_hideAllEntities [OF wf] hidden, of es] by simp
  have same: "entities (fold setEntity es (hideAllEntities c)) = entities c"
    if "entity_id ` set es \<subseteq> fst ` set (entities c)"
    using that entities_fold_setEntity [of es "hideAllEntities c"] by simp
  show ?thesis
    using hidden pass same unfolding shown_exactly_def by (metis empty_iff)
qed

theorem hide_then_show_witness:
  "entity_id ` set [entity_at 1 0, entity_at 3 2]
     \<subseteq> fst ` set (entities (run [SetEntity (entity_at 1 0), SetEntity (entity_at 2 1),
                                   SetEntity (entity_at 3 2)] initialize)) \<and>
   map_of (entities (run [SetEntity (entity_at 1 0), SetEntity (entity_at 2 1),
                          SetEntity (entity_at 3 2)] initialize)) 2 = Some 2 \<and>
   \<not> enabled (mesh_at (fold setEntity [entity_at 1 0, entity_at 3 2]
       (hideAllEntities (run [SetEntity (entity_at 1 0), SetEntity (entity_at 2 1),
                              SetEntity (entity_at 3 2)] initialize))) 2) \<and>
   enabled (mesh_at (fold setEntity [entity_at 1 0, entity_at 3 2]
       (hideAllEntities (run [SetEntity (entity_at 1 0), SetEntity (entity_at 2 1),
                              SetEntity (entity_at 3 2)] initialize))) 1) \<and>
   position (mesh_at (fold setEntity [entity_at 1 0, entity_at 3 2]
       (hideAllEntities (run [SetEntity (entity_at 1 0), SetEntity (entity_at 2 1),
                              SetEntity (entity_at 3 2)] initialize))) 3) = Vector3 2 0 0"
proof -
  let ?c = "run [SetEntity (entity_at 1 0), SetEntity (entity_at 2 1), SetEntity (entity_at 3 2)] initialize"
  have ents: "entities ?c = [(1, 1), (2, 2), (3, 3)]" by (simp add: controller_defs)
  have sub: "entity_id ` set [entity_at 1 0, entity_at 3 2] \<subseteq> fst ` set (entities ?c)"
    unfolding ents by (simp add: entity_at_def)
  have m1: "map_of (entities ?c) 1 = Some 1" and m2: "map_of (entities ?c) 2 = Some 2"
    unfolding ents by simp_all
  have ids: "entity_id ` set [entity_at 1 0, entity_at 3 2] = {1, 3}"
    by (simp add: entity_at_def)
  have pos: "position (mesh_at (fold setEntity [entity_at 1 0, entity_at 3 2] (hideAllEntities ?c)) 3)
      = Vector3 2 0 0"
    by (simp add: controller_defs)
  from hide_then_show [OF refl, of "[SetEntity (entity_at 1 0), SetEntity (entity_at 2 1),
      SetEntity (entity_at 3 2)]" "[entity_at 1 0, entity_at 3 2]"] sub m1 m2 pos
  show ?thesis unfolding ids by simp
qed

text \<open>
  C10. Frame condition of the visibility operations: \<open>hideAllEntities\<close> leaves the
  entity map, both back-references and, on every mesh, everything but the enabled flag
  as they were; \<open>setEntity\<close> leaves both back-references and, on every mesh that
  existed, everything but position and enabled flag as they were, does not touch a mesh
  other than the one of its entity, and changes the entity map only by adding the entry
  of a mesh it has created. So every mesh keeps its material over an update pass
  (\<open>hideAllEntities\<close> followed by \<open>setEntity\<close> calls), and the back-references stay.
\<close>

theorem visibility_frame:
  "entities (hideAllEntities c) = entities c \<and>
   selectedEntity (hideAllEntities c) = selectedEntity c \<and>
   hoveredEntity (hideAllEntities c) = hoveredEntity c \<and>
   length (scene_meshes (hideAllEntities c)) = length (scene_meshes c) \<and>
   (\<forall>a. (mesh_at (hideAllEntities c) a)\<lparr>enabled := True\<rparr> = (mesh_at c a)\<lparr>enabled := True\<rparr>) \<and>
   selectedEntity (setEntity e c) = selectedEntity c \<and>
   hoveredEntity (setEntity e c) = hoveredEntity c \<and>
   entities (setEntity e c) =
     (case map_of (entities c) (entity_id e) of
        None \<Rightarrow> entities c @ [(entity_id e, length (scene_meshes c))]
      | Some a \<Rightarrow> entities c) \<and>
   (\<forall>a < length (scene_meshes c).
      mesh_name (mesh_at (setEntity e c) a) = mesh_name (mesh_at c a) \<and>
      mesh_id (mesh_at (setEntity e c) a) = mesh_id (mesh_at c a) \<and>
      material (mesh_at (setEntity e c) a) = material (mesh_at c a) \<and>
      isPickable (mesh_at (setEntity e c) a) = isPickable (mesh_at c a) \<and>
      (map_of (entities c) (entity_id e) \<noteq> Some a \<longrightarrow> mesh_at (setEntity e c) a = mesh_at c a)) \<and>
   selectedEntity (fold setEntity es (hideAllEntities c)) = selectedEntity c \<and>
   hoveredEntity (fold setEntity es (hideAllEntities c)) = hoveredEntity c \<and>
   (\<forall>a < length (scene_meshes c).
      material (mesh_at (fold setEntity es (hideAllEntities c)) a) = material (mesh_at c a))"
proof -
  have hide: "(mesh_at (hideAllEntities c) a)\<lparr>enabled := True\<rparr> = (mesh_at c a)\<lparr>enabled := True\<rparr>" for a
    by (simp add: mesh_at_hideAllEntities)
  have ents: "entities (setEntity e c) =
     (case map_of (entities c) (entity_id e) of
        None \<Rightarrow> entities c @ [(entity_id e, length (scene_meshes c))]
      | Some a \<Rightarrow> entities c)"
    by (simp add: setEntity_entities update_absent split: option.splits)
  have set1: "mesh_name (mesh_at (setEntity e c) a) = mesh_name (mesh_at c a) \<and>
      mesh_id (mesh_at (setEntity e c) a) = mesh_id (mesh_at c a) \<and>
      material (mesh_at (setEntity e c) a) = material (mesh_at c a) \<and>
      isPickable (mesh_at (setEntity e c) a) = isPickable (mesh_at c a) \<and>
      (map_of (entities c) (entity_id e) \<noteq> Some a \<longrightarrow> mesh_at (setEntity e c) a = mesh_at c a)"
    if "a < length (scene_meshes c)" for a
    using mesh_at_setEntity_kept [OF that, of e] mesh_at_setEntity_other [OF that, of e] by blast
  have pass: "material (mesh_at (fold setEntity es (hideAllEntities c)) a) = material (mesh_at c a)"
    if "a < length (scene_meshes c)" for a
  proof -
    have "a < length (scene_meshes (hideAllEntities c))" using that by simp
    from fold_setEntity_kept [OF this, of es]
    have "material (mesh_at (fold setEntity es (hideAllEntities c)) a) = material (mesh_at (hideAllEntities c) a)"
      by blast
    also have "\<dots> = material (mesh_at c a)"
      by (simp add: mesh_at_hideAllEntities)
    finally show ?thesis .
  qed
  show ?thesis
    using hide ents set1 pass by simp
qed

theorem visibility_frame_witness:
  "selectedEntity (run [SetEntity (entity_at 1 0), SetEntity (entity_at 2 1), MarkEntityAsSelected 1,
       OnEntityHovered 2] initialize) = Some 1 \<and>
   material (mesh_at (run [SetEntity (entity_at 1 0), SetEntity (entity_at 2 1), MarkEntityAsSelected 1,
       OnEntityHovered 2] initialize) 1) = SelectedMaterial \<and>
   (1::nat) < length (scene_meshes (run [SetEntity (entity_at 1 0), SetEntity (entity_at 2 1),
       MarkEntityAsSelected 1, OnEntityHovered 2] initialize)) \<and>
   material (mesh_at (fold setEntity [entity_at 2 4]
      (hideAllEntities (run [SetEntity (entity_at 1 0), SetEntity (entity_at 2 1), MarkEntityAsSelected 1,
       OnEntityHovered 2] initialize))) 1) = SelectedMaterial \<and>
   selectedEntity (fold setEntity [entity_at 2 4]
      (hideAllEntities (run [SetEntity (entity_at 1 0), SetEntity (entity_at 2 1), MarkEntityAsSelected 1,
       OnEntityHovered 2] initialize))) = Some 1"
proof -
  let ?c = "run [SetEntity (entity_at 1 0), SetEntity (entity_at 2 1), MarkEntityAsSelected 1,
       OnEntityHovered 2] initialize"
  have s: "selectedEntity ?c = Some 1" by (simp add: controller_defs)
  have m: "material (mesh_at ?c 1) = SelectedMaterial" by (simp add: controller_defs)
  have l: "(1::nat) < length (scene_meshes ?c)" by (simp add: controller_defs)
  from visibility_frame [of ?c "entity_at 2 4" "[entity_at 2 4]"] s m l show ?thesis by simp
qed


text \<open>
  C7. One mesh per id. As stated the claim does not hold: \<open>createEntity\<close> makes a new
  sphere on every call, so a second call with the same id leaves two spheres with the
  same stamp in the scene, of which only the second is in the entity map;
  \<open>hideAllEntities\<close> does not reach the first, which stays enabled.
\<close>

theorem repeated_createEntity_counterexample:
  "isPickable (mesh_at (run [CreateEntity (entity_at 1 0), CreateEntity (entity_at 1 0)] initialize) 1) \<and>
   isPickable (mesh_at (run [CreateEntity (entity_at 1 0), CreateEntity (entity_at 1 0)] initialize) 2) \<and>
   mesh_id (mesh_at (run [CreateEntity (entity_at 1 0), CreateEntity (entity_at 1 0)] initialize) 1)
     = number_to_string 1 \<and>
   mesh_id (mesh_at (run [CreateEntity (entity_at 1 0), CreateEntity (entity_at 1 0)] initialize) 2)
     = number_to_string 1 \<and>
   entities (run [CreateEntity (entity_at 1 0), CreateEntity (entity_at 1 0)] initialize) = [(1, 2)] \<and>
   length (filter isPickable
     (scene_meshes (run [CreateEntity (entity_at 1 0), CreateEntity (entity_at 1 0)] initialize))) = 2 \<and>
   enabled (mesh_at (hideAllEntities
     (run [CreateEntity (entity_at 1 0), CreateEntity (entity_at 1 0)] initialize)) 1)"
  by (simp add: controller_defs)

text \<open>
  C7 as amended. For every sequence of calls in which \<open>createEntity\<close> is only called
  with an id that has no mesh yet (as \<open>setEntity\<close> calls it), the state reached has
  one entry per id in the entity map, no mesh under two ids, every entry pointing to a
  sphere of the scene stamped with its id, and every sphere of the scene under some id
  of the map: the spheres and the ids are equally many. After an update pass
  (\<open>hideAllEntities\<close> followed by \<open>setEntity\<close> calls) from such a state the mesh of an
  id is enabled exactly when the pass has set that id.
\<close>

theorem one_mesh_per_id:
  assumes "creates_fresh calls initialize"
    and "c = run calls initialize"
  shows "distinct (map fst (entities c)) \<and>
         distinct (map snd (entities c)) \<and>
         (\<forall>k a. map_of (entities c) k = Some a \<longrightarrow>
            a < length (scene_meshes c) \<and> isPickable (mesh_at c a) \<and>
            mesh_id (mesh_at c a) = number_to_string k) \<and>
         (\<forall>a. a < length (scene_meshes c) \<and> isPickable (mesh_at c a) \<longrightarrow>
            (\<exists>k. map_of (entities c) k = Some a)) \<and>
         length (filter isPickable (scene_meshes c)) = length (entities c) \<and>
         (\<forall>k a. map_of (entities (fold setEntity es (hideAllEntities c))) k = Some a \<longrightarrow>
            (enabled (mesh_at (fold setEntity es (hideAllEntities c)) a) \<longleftrightarrow> k \<in> entity_id ` set es))"
proof -
  have wf: "well_formed c"
    using assms(2) by (simp add: well_formed_run)
  have tr: "all_tracked c"
    using assms unfolding run_def by (simp add: all_tracked_fold_exec all_tracked_initialize)
  have d: "distinct (map fst (entities c))" "distinct (map snd (entities c))"
    using wf by (simp_all add: well_formed_def)
  have ref: "a < length (scene_meshes c) \<and> isPickable (mesh_at c a) \<and>
      mesh_id (mesh_at c a) = number_to_string k"
    if "map_of (entities c) k = Some a" for k a
    using map_of_entities_ref [OF wf that] by (simp add: sphere_ref_def)
  have cov: "\<exists>k. map_of (entities c) k = Some a"
    if "a < length (scene_meshes c) \<and> isPickable (mesh_at c a)" for a
  proof -
    from that have "sphere_ref c a" by (simp add: sphere_ref_def)
    with tr have "a \<in> snd ` set (entities c)"
      unfolding all_tracked_def by blast
    then obtain k where "(k, a) \<in> set (entities c)" by auto
    with d(1) have "map_of (entities c) k = Some a" by simp
    then show ?thesis ..
  qed
  have cnt: "length (filter isPickable (scene_meshes c)) = length (entities c)"
    using wf tr by (rule spheres_counted)
  have "shown_exactly (fold setEntity es (hideAllEntities c)) (entity_id ` set es)"
    using fold_setEntity_pass [OF well_formed_hideAllEntities [OF wf]
        shown_exactly_hideAllEntities [OF wf], of es] by simp
  then have pass: "enabled (mesh_at (fold setEntity es (hideAllEntities c)) a) \<longleftrightarrow> k \<in> entity_id ` set es"
    if "map_of (entities (fold setEntity es (hideAllEntities c))) k = Some a" for k a
    using that unfolding shown_exactly_def by blast
  from d ref cov cnt pass show ?thesis by blast
qed

theorem one_mesh_per_id_witness:
  "creates_fresh [CreateEntity (entity_at 1 0), SetEntity (entity_at 1 3), SetEntity (entity_at 2 1),
                  HideAllEntities, SetEntity (entity_at 2 5)] initialize \<and>
   entities (run [CreateEntity (entity_at 1 0), SetEntity (entity_at 1 3), SetEntity (entity_at 2 1),
                  HideAllEntities, SetEntity (entity_at 2 5)] initialize) = [(1, 1), (2, 2)] \<and>
   length (filter isPickable (scene_meshes
     (run [CreateEntity (entity_at 1 0), SetEntity (entity_at 1 3), SetEntity (entity_at 2 1),
           HideAllEntities, SetEntity (entity_at 2 5)] initialize))) = 2 \<and>
   \<not> enabled (mesh_at (run [CreateEntity (entity_at 1 0), SetEntity (entity_at 1 3), SetEntity (entity_at 2 1),
           HideAllEntities, SetEntity (entity_at 2 5)] initialize) 1) \<and>
   enabled (mesh_at (run [CreateEntity (entity_at 1 0), SetEntity (entity_at 1 3), SetEntity (entity_at 2 1),
           HideAllEntities, SetEntity (entity_at 2 5)] initialize) 2)"
proof -
  let ?calls = "[CreateEntity (entity_at 1 0), SetEntity (entity_at 1 3), SetEntity (entity_at 2 1),
                 HideAllEntities, SetEntity (entity_at 2 5)]"
  have fresh: "creates_fresh ?calls initialize" by (simp add: controller_defs)
  have ents: "entities (run ?calls initialize) = [(1, 1), (2, 2)]" by (simp add: controller_defs)
  have en: "\<not> enabled (mesh_at (run ?calls initialize) 1)" "enabled (mesh_at (run ?calls initialize) 2)"
    by (simp_all add: controller_defs)
  from one_mesh_per_id [OF fresh refl, of "[]"]
  have "length (filter isPickable (scene_meshes (run ?calls initialize))) = length (entities (run ?calls initialize))"
    by blast
  then have cnt: "length (filter isPickable (scene_meshes (run ?calls initialize))) = 2"
    unfolding ents by simp
  from fresh ents cnt en show ?thesis by blast
qed


text \<open>
  C9. Pointer-down id round-trip. As stated the claim does not hold for every integer
  id: from \<open>10 ^ 21\<close> on the stamp is in exponent notation, of which \<open>parseInt\<close>
  reads only the digits before the point or the exponent. The mesh created for the id
  \<open>10 ^ 21\<close> is stamped \<open>1e+21\<close>, and a pick of it calls the callback with 1.
\<close>

theorem large_id_round_trip_counterexample:
  "is_Number 1000000000000000000000 \<and>
   mesh_id (mesh_at (fst (createEntity (entity_at 1000000000000000000000 0) initialize))
                    (snd (createEntity (entity_at 1000000000000000000000 0) initialize))) = ''1e+21'' \<and>
   snd (onPointerDown (fst (createEntity (entity_at 1000000000000000000000 0) initialize))
          (Hit (snd (createEntity (entity_at 1000000000000000000000 0) initialize)))) = [Finite 1]"
proof -
  have d: "nat_to_digits 1000000000000000000000 = ''1000000000000000000000''"
    by (simp add: nat_to_digits.simps digit_char_def)
  have b: "num_bits 1000000000000000000000 = 70"
    by (simp add: num_bits.simps)
  have r: "round_to_double 1000000000000000000000 = 1000000000000000000000"
    by (simp add: round_to_double_def b Let_def)
  have c: "digit_candidate (Suc 0) 1000000000000000000000 = Some (Suc 0, 21)"
    by (simp add: digit_candidate_def d r Let_def)
  have s: "shortest_from (Suc 0) 1000000000000000000000 = (Suc 0, 21)"
    by (simp add: shortest_from.simps [of "Suc 0"] d c)
  have str: "number_to_string 1000000000000000000000 = ''1e+21''"
    by (simp add: number_to_string_def magnitude_to_string_def s strip_zeros_def
        nat_to_digits.simps digit_char_def)
  have p: "parseInt ''1e+21'' = Finite 1"
    by (simp add: parseInt_def read_sign_def read_radix_def is_space_def is_radix_digit_def
        char_value_def radix_value_def round_to_double_def infinity_threshold_def)
  have n: "is_Number 1000000000000000000000"
    by (simp add: is_Number_def r infinity_threshold_def)
  have stamp: "mesh_id (mesh_at (fst (createEntity (entity_at 1000000000000000000000 0) initialize))
                    (snd (createEntity (entity_at 1000000000000000000000 0) initialize))) = ''1e+21''"
    by (simp add: entity_at_def str)
  then have "snd (onPointerDown (fst (createEntity (entity_at 1000000000000000000000 0) initialize))
          (Hit (snd (createEntity (entity_at 1000000000000000000000 0) initialize)))) = [Finite 1]"
    by (simp add: onPointerDown_def p)
  with n stamp show ?thesis by blast
qed

text \<open>
  C9 as amended. For every entity created via \<open>createEntity\<close> whose id \<open>n\<close> is an
  integer-valued number of magnitude below \<open>10 ^ 21\<close>, parsing the stamp of its mesh
  yields \<open>n\<close>, so a pick of that mesh makes the pointer-down handler call
  \<open>onEntitySelected\<close> once, with \<open>n\<close>; the same holds for the mesh that the entity
  map of a reachable state holds for \<open>n\<close>. The handler leaves the state of the
  controller as it is, whatever the pick.
\<close>

theorem pointer_down_round_trip:
  assumes "is_Number n"
    and "\<bar>n\<bar> < 10 ^ 21"
  shows "parseInt (number_to_string n) = Finite n \<and>
         (entity_id e = n \<longrightarrow>
            parseInt (mesh_id (mesh_at (fst (createEntity e c0)) (snd (createEntity e c0)))) = Finite n \<and>
            onPointerDown (fst (createEntity e c0)) (Hit (snd (createEntity e c0)))
              = (fst (createEntity e c0), [Finite n])) \<and>
         (map_of (entities (run calls initialize)) n = Some a \<longrightarrow>
            onPointerDown (run calls initialize) (Hit a) = (run calls initialize, [Finite n])) \<and>
         fst (onPointerDown c pick) = c"
proof -
  have rt: "parseInt (number_to_string n) = Finite n"
    using assms by (rule parseInt_number_to_string)
  have created: "parseInt (mesh_id (mesh_at (fst (createEntity e c0)) (snd (createEntity e c0)))) = Finite n \<and>
      onPointerDown (fst (createEntity e c0)) (Hit (snd (createEntity e c0)))
        = (fst (createEntity e c0), [Finite n])"
    if "entity_id e = n"
    using that rt by (simp add: onPointerDown_def)
  have tracked: "onPointerDown (run calls initialize) (Hit a) = (run calls initialize, [Finite n])"
    if "map_of (entities (run calls initialize)) n = Some a"
  proof -
    have "mesh_id (mesh_at (run calls initialize) a) = number_to_string n"
      using map_of_entities_ref [OF well_formed_run that] by blast
    with rt show ?thesis by (simp add: onPointerDown_def)
  qed
  from rt created tracked show ?thesis by simp
qed

theorem pointer_down_round_trip_witness:
  "is_Number 1152921504606846976 \<and> \<bar>1152921504606846976\<bar> < (10::int) ^ 21 \<and>
   map_of (entities (run [SetEntity (entity_at 1152921504606846976 0)] initialize)) 1152921504606846976
     = Some 1 \<and>
   onPointerDown (run [SetEntity (entity_at 1152921504606846976 0)] initialize) (Hit 1)
     = (run [SetEntity (entity_at 1152921504606846976 0)] initialize, [Finite 1152921504606846976])"
proof -
  have b: "num_bits 1152921504606846976 = 61"
    by (simp add: num_bits.simps)
  have n: "is_Number 1152921504606846976"
    by (simp add: is_Number_def round_to_double_def b Let_def infinity_threshold_def)
  have l: "\<bar>1152921504606846976\<bar> < (10::int) ^ 21" by simp
  have m: "map_of (entities (run [SetEntity (entity_at 1152921504606846976 0)] initialize))
      1152921504606846976 = Some 1"
    by (simp add: controller_defs)
  from pointer_down_round_trip [OF n l, of _ _ "[SetEntity (entity_at 1152921504606846976 0)]" 1] n l m
  show ?thesis by blast
qed

text \<open>
  C2. Clear-message protocol. As stated the claim does not hold: the session flag is
  changed only when the user both presses "Remove data" and ticks "Don't ask again";
  a user who ticks the checkbox and presses "Cancel" is asked again on the next Clear
  message.
\<close>

theorem clear_checkbox_with_cancel_counterexample:
  "snd (on_clear_message new_SessionOptions (1, True))
     = [ShowMessageBox, Reply (Message ClearResult (ClearData False True))] \<and>
   showClearDataDialog (fst (on_clear_message new_SessionOptions (1, True))) \<and>
   ShowMessageBox \<in> set (snd (on_clear_message (fst (on_clear_message new_SessionOptions (1, True))) (0, False)))"
  by (simp add: on_clear_message_def new_SessionOptions_def)

text \<open>
  C2 as amended. On a Clear message the host replies with exactly one ClearResult
  message. While the session flag asks for the dialog, the dialog is shown and the
  payload is \<open>{clear, remember}\<close> with \<open>clear\<close> true iff the button index is 0 and
  \<open>remember\<close> the checkbox boolean; the flag is switched to suppress the dialog exactly
  when the button index is 0 and the checkbox is ticked. Once the flag suppresses the
  dialog, no dialog is shown, the reply is \<open>{clear: true, remember: true}\<close> and the
  flag stays.
\<close>

theorem clear_message_protocol:
  "replies (snd (on_clear_message sessionOptions (response, checkboxChecked)))
     = [Message ClearResult
          (if showClearDataDialog sessionOptions then ClearData (response = 0) checkboxChecked
           else ClearData True True)] \<and>
   (ShowMessageBox \<in> set (snd (on_clear_message sessionOptions (response, checkboxChecked)))
      \<longleftrightarrow> showClearDataDialog sessionOptions) \<and>
   (showClearDataDialog (fst (on_clear_message sessionOptions (response, checkboxChecked)))
      \<longleftrightarrow> showClearDataDialog sessionOptions \<and> \<not> (response = 0 \<and> checkboxChecked))"
  by (simp add: on_clear_message_def replies_def Let_def)

theorem clear_message_protocol_witness:
  "replies (snd (on_clear_message new_SessionOptions (0, True)))
     = [Message ClearResult (ClearData True True)] \<and>
   \<not> showClearDataDialog (fst (on_clear_message new_SessionOptions (0, True))) \<and>
   snd (on_clear_message (fst (on_clear_message new_SessionOptions (0, True))) (1, False))
     = [Reply (Message ClearResult (ClearData True True))]"
proof -
  have s: "showClearDataDialog new_SessionOptions"
    by (simp add: new_SessionOptions_def)
  have again: "snd (on_clear_message (fst (on_clear_message new_SessionOptions (0, True))) (1, False))
     = [Reply (Message ClearResult (ClearData True True))]"
    by (simp add: on_clear_message_def new_SessionOptions_def)
  from clear_message_protocol [of new_SessionOptions 0 True] s again show ?thesis by simp
qed

end
